theory Spec2Isabelle
  imports Complex_Main
begin

section \<open>Plex AI Titler: a shallow embedding of \<open>plex_ai_titler.py\<close>\<close>

text \<open>
  The program is one Python module. Its pure functions are embedded as HOL functions;
  everything it does to the outside (terminal, credential file, the Plex service, the
  language-model service) is embedded as an explicit list of events, and every answer the
  outside gives (a file's state, a login's outcome, a typed line, a completion) is a
  parameter of the embedding. A Python exception is a value of the type \<open>exn\<close>, and a
  call that may raise returns \<open>exn + 'a\<close> with \<open>Inl\<close> for the raised exception.

  A Python \<open>str\<close> is a \<open>string\<close>: each \<open>char\<close> stands for one code point below 256.
  The path separator \<open>os.sep\<close> and \<open>os.path.basename\<close> are those of POSIX.
\<close>

subsection \<open>Strings\<close>

definition os_sep :: char where
  "os_sep = CHR ''/''"

text \<open>\<open>s.startswith(p)\<close>\<close>

definition startswith :: "string \<Rightarrow> string \<Rightarrow> bool" where
  "startswith s p = (take (length p) s = p)"

text \<open>\<open>s.rstrip(os.sep)\<close>: every trailing separator is removed.\<close>

definition rstrip_sep :: "string \<Rightarrow> string" where
  "rstrip_sep s = rev (dropWhile (\<lambda>c. c = os_sep) (rev s))"

text \<open>
  \<open>str.isspace\<close> of one character, on the code points below 256: tab, line feed,
  vertical tab, form feed, carriage return, the four separators \<open>0x1c\<close> to \<open>0x1f\<close>,
  space, next line \<open>0x85\<close> and no-break space \<open>0xa0\<close>.
\<close>

definition isspace :: "char \<Rightarrow> bool" where
  "isspace c = (let n = (of_char c :: nat) in
     (9 \<le> n \<and> n \<le> 13) \<or> (28 \<le> n \<and> n \<le> 32) \<or> n = 133 \<or> n = 160)"

text \<open>\<open>s.strip()\<close>: leading, then trailing whitespace is removed.\<close>

definition strip :: "string \<Rightarrow> string" where
  "strip s = rev (dropWhile isspace (rev (dropWhile isspace s)))"

text \<open>
  \<open>s.lower()\<close> on the code points below 256: the letters \<open>A\<close> to \<open>Z\<close> and the
  accented capitals \<open>0xc0\<close> to \<open>0xde\<close> (the multiplication sign \<open>0xd7\<close> apart) move
  up by 32; every other character stays.
\<close>

definition lower_char :: "char \<Rightarrow> char" where
  "lower_char c = (let n = (of_char c :: nat) in
     if (65 \<le> n \<and> n \<le> 90) \<or> (192 \<le> n \<and> n \<le> 222 \<and> n \<noteq> 215)
     then char_of (n + 32) else c)"

definition lower :: "string \<Rightarrow> string" where
  "lower s = map lower_char s"

text \<open>\<open>p in s\<close> for two strings: \<open>p\<close> occurs in \<open>s\<close> as a contiguous block.\<close>

fun contains :: "string \<Rightarrow> string \<Rightarrow> bool" where
  "contains [] p = (p = [])"
| "contains (c # s) p = (startswith (c # s) p \<or> contains s p)"

text \<open>\<open>str(n)\<close> for a natural number: its decimal digits.\<close>

definition digit_char :: "nat \<Rightarrow> char" where
  "digit_char d = ''0123456789'' ! d"

fun str_nat :: "nat \<Rightarrow> string" where
  "str_nat n = (if n < 10 then [digit_char n]
     else str_nat (n div 10) @ [digit_char (n mod 10)])"

text \<open>\<open>str(i)\<close> for a Python integer.\<close>

definition str_int :: "int \<Rightarrow> string" where
  "str_int i = (if i < 0 then CHR ''-'' # str_nat (nat (- i)) else str_nat (nat i))"

text \<open>\<open>f"'{s}'"\<close>: the string between two single quotes.\<close>

definition quoted :: "string \<Rightarrow> string" where
  "quoted s = [CHR 0x27] @ s @ [CHR 0x27]"

subsection \<open>PathResolver: \<open>get_relative_path\<close>\<close>

text \<open>
  \<open>os.path.basename(p)\<close> of \<open>posixpath\<close>: \<open>p[p.rfind('/') + 1:]\<close>, the characters after
  the last separator, all of \<open>p\<close> when it has none.
\<close>

definition basename :: "string \<Rightarrow> string" where
  "basename p = rev (takeWhile (\<lambda>c. c \<noteq> os_sep) (rev p))"

text \<open>\<open>location.rstrip(os.sep) + os.sep\<close>\<close>

definition location_prefix :: "string \<Rightarrow> string" where
  "location_prefix location = rstrip_sep location @ [os_sep]"

text \<open>
  The loop over \<open>library_locations\<close> returns at the first location whose prefix the
  path starts with; after the loop, the basename.
\<close>

fun get_relative_path :: "string \<Rightarrow> string list \<Rightarrow> string" where
  "get_relative_path filepath [] = basename filepath"
| "get_relative_path filepath (location # library_locations) =
     (if startswith filepath (location_prefix location)
      then drop (length (location_prefix location)) filepath
      else get_relative_path filepath library_locations)"

subsection \<open>Exceptions, events, endings\<close>

text \<open>
  The exception classes the module names or can meet. \<open>KeyboardInterrupt\<close> derives from
  \<open>BaseException\<close> only; every other class here derives from \<open>Exception\<close>.
  Each value carries \<open>str(e)\<close>.
\<close>

datatype exn =
    Unauthorized string
  | OSError string
  | JSONDecodeError string
  | AttributeError string
  | IndexError string
  | EOFError string
  | OtherException string
  | KeyboardInterrupt

text \<open>\<open>isinstance(e, Exception)\<close>: what \<open>except Exception\<close> catches.\<close>

fun is_Exception :: "exn \<Rightarrow> bool" where
  "is_Exception KeyboardInterrupt = False"
| "is_Exception _ = True"

text \<open>\<open>str(e)\<close>\<close>

fun exn_str :: "exn \<Rightarrow> string" where
  "exn_str (Unauthorized m) = m"
| "exn_str (OSError m) = m"
| "exn_str (JSONDecodeError m) = m"
| "exn_str (AttributeError m) = m"
| "exn_str (IndexError m) = m"
| "exn_str (EOFError m) = m"
| "exn_str (OtherException m) = m"
| "exn_str KeyboardInterrupt = []"

text \<open>
  A value read by \<open>json.load\<close>, which is also a Python value: \<open>JNull\<close> is \<open>None\<close>,
  \<open>JObj\<close> a \<open>dict\<close> (keys distinct), \<open>JArr\<close> a \<open>list\<close>. A finite float is
  the rational it denotes.
\<close>

datatype json =
    JNull
  | JBool bool
  | JInt int
  | JFloat rat
  | JStr string
  | JArr "json list"
  | JObj "(string \<times> json) list"

text \<open>\<open>bool(v)\<close>, the test of \<open>if v:\<close>.\<close>

fun truthy :: "json \<Rightarrow> bool" where
  "truthy JNull = False"
| "truthy (JBool b) = b"
| "truthy (JInt i) = (i \<noteq> 0)"
| "truthy (JFloat x) = (x \<noteq> 0)"
| "truthy (JStr s) = (s \<noteq> [])"
| "truthy (JArr xs) = (xs \<noteq> [])"
| "truthy (JObj kvs) = (kvs \<noteq> [])"

text \<open>\<open>type(v).__name__\<close>\<close>

fun type_name :: "json \<Rightarrow> string" where
  "type_name JNull = ''NoneType''"
| "type_name (JBool b) = ''bool''"
| "type_name (JInt i) = ''int''"
| "type_name (JFloat x) = ''float''"
| "type_name (JStr s) = ''str''"
| "type_name (JArr xs) = ''list''"
| "type_name (JObj kvs) = ''dict''"

text \<open>\<open>not x\<close> for \<open>x: str | None\<close>: true of \<open>None\<close> and of the empty string.\<close>

fun not_str :: "string option \<Rightarrow> bool" where
  "not_str None = True"
| "not_str (Some s) = (s = [])"

text \<open>The session handle \<open>MyPlexAccount\<close>, with the one attribute the module reads.\<close>

datatype account = Account (authToken: string)

subsection \<open>The catalog and the language-model service, as data\<close>

text \<open>A field of an item: \<open>field.name\<close>, \<open>field.locked\<close>.\<close>

record field =
  name :: string
  locked :: bool

text \<open>A media part; \<open>part.file\<close> may be \<open>None\<close>.\<close>

datatype part = Part (part_file: "string option")

text \<open>
  A catalog item as the module probes it: \<open>item.title\<close>; \<open>item.fields\<close> (here \<open>item_fields\<close>), \<open>None\<close> when
  the attribute is missing or \<open>None\<close>; the list \<open>item.iterParts()\<close> yields (a part may be
  \<open>None\<close>), \<open>None\<close> when the item has no \<open>iterParts\<close>.
\<close>

record item =
  title :: string
  item_fields :: "field list option"
  parts :: "part option list option"

text \<open>\<open>AIConfig\<close>. The temperature is only handed on; a rational stands for the float.\<close>

record aiconfig =
  endpoint :: string
  model :: string
  system_prompt :: string
  temperature :: rat
  api_key :: string

text \<open>The keyword arguments of \<open>client.chat.completions.create\<close>; a message is (role, content).\<close>

record chat_request =
  req_model :: string
  req_temperature :: rat
  req_messages :: "(string \<times> string) list"

text \<open>
  The completion: \<open>response.choices\<close>, each choice with its \<open>message.content\<close>, which
  the service may leave \<open>None\<close>.
\<close>

datatype choice = Choice (message_content: "string option")

datatype response = Response (choices: "choice list")

text \<open>
  What the program does to the outside, one event per call: \<open>print(s)\<close>;
  \<open>input(prompt)\<close>; \<open>getpass(prompt)\<close>; \<open>CREDS_FILE.unlink\<close>; the write of the
  record \<open>{"auth_token": token}\<close>; \<open>CREDS_FILE.chmod(0o600)\<close>;
  \<open>MyPlexAccount(token=t)\<close>; \<open>MyPlexAccount(username, password)\<close>, with \<open>code\<close> when
  given; \<open>client.chat.completions.create\<close>; \<open>item.editTitle(new_title)\<close>.
\<close>

datatype event =
    Print string
  | Input string
  | Getpass string
  | Unlink
  | WriteCreds string
  | Chmod600
  | TokenLogin json
  | PasswordLogin string string "string option"
  | ChatRequest chat_request
  | EditTitle item string

text \<open>
  How \<open>main\<close> ends: it goes on with a value, \<open>sys.exit(n)\<close>, or an exception leaves
  \<open>main\<close> uncaught and the interpreter prints its traceback.
\<close>

datatype 'a ending = Continues 'a | SysExit int | Traceback exn

subsection \<open>CredentialStore\<close>

text \<open>
  The credential file when the run starts: \<open>CREDS_FILE.exists()\<close> raises \<open>OSError\<close>
  (before Python 3.12 it does so when a directory of the path cannot be searched); or it
  is false; or \<open>open\<close> raises \<open>OSError\<close>; or the file opens and \<open>json.load(f)\<close>
  raises or returns a value.
\<close>

datatype creds_state = ExistsFails string | NoFile | OpenFails string | Opened "exn + json"

text \<open>\<open>data.get(key)\<close> on a \<open>dict\<close>: \<open>None\<close> for a missing key.\<close>

definition dict_get :: "(string \<times> json) list \<Rightarrow> string \<Rightarrow> json" where
  "dict_get kvs k = (case map_of kvs k of None \<Rightarrow> JNull | Some v \<Rightarrow> v)"

text \<open>
  \<open>load_cached_token\<close>. The test \<open>CREDS_FILE.exists()\<close> stands before the \<open>try\<close>, so
  what it raises leaves the function. The handler
  \<open>except (json.JSONDecodeError, OSError)\<close> catches
  these two classes; any other exception of the \<open>try\<close> block leaves the function.
  \<open>data.get\<close> exists on a \<open>dict\<close> only: on any other value the attribute lookup raises
  \<open>AttributeError\<close>.
\<close>

definition load_cached_token :: "creds_state \<Rightarrow> exn + json" where
  "load_cached_token creds =
     (case creds of
        ExistsFails m \<Rightarrow> Inl (OSError m)
      | NoFile \<Rightarrow> Inr JNull
      | OpenFails m \<Rightarrow> Inr JNull
      | Opened (Inl e) \<Rightarrow>
          (case e of
             JSONDecodeError m \<Rightarrow> Inr JNull
           | OSError m \<Rightarrow> Inr JNull
           | _ \<Rightarrow> Inl e)
      | Opened (Inr data) \<Rightarrow>
          (case data of
             JObj kvs \<Rightarrow> Inr (dict_get kvs ''auth_token'')
           | _ \<Rightarrow> Inl (AttributeError
                 (quoted (type_name data) @ '' object has no attribute '' @ quoted ''get''))))"

subsection \<open>AuthenticationFlow\<close>

text \<open>
  What the outside answers during \<open>authenticate_myplex\<close>: the credential file, the two
  ways of \<open>MyPlexAccount(...)\<close> (by token; by username and password, with or without
  \<open>code\<close>), \<open>CONFIG.get\<close> of the two defaults, one line for each of the three prompts
  (or the exception \<open>input\<close> or \<open>getpass\<close> raises), and whether writing the credential
  file or its \<open>chmod\<close> raises \<open>OSError\<close>.
\<close>

record auth_env =
  creds :: creds_state
  token_login :: "json \<Rightarrow> exn + account"
  password_login :: "string \<Rightarrow> string \<Rightarrow> string option \<Rightarrow> exn + account"
  config_username :: "string option"
  config_password :: "string option"
  input_username :: "exn + string"
  getpass_password :: "exn + string"
  input_code :: "exn + string"
  creds_write_error :: "string option"
  creds_chmod_error :: "string option"

text \<open>\<open>save_cached_token\<close>: write, then \<open>chmod(0o600)\<close>; an \<open>OSError\<close> of either is a warning.\<close>

definition save_cached_token :: "auth_env \<Rightarrow> string \<Rightarrow> event list" where
  "save_cached_token env token =
     (case creds_write_error env of
        Some m \<Rightarrow> [Print (''Warning: Could not save credentials: '' @ m)]
      | None \<Rightarrow>
          (case creds_chmod_error env of
             Some m \<Rightarrow> [WriteCreds token, Print (''Warning: Could not save credentials: '' @ m)]
           | None \<Rightarrow> [WriteCreds token, Chmod600]))"

text \<open>\<open>clear_cached_token\<close>: \<open>unlink(missing_ok=True)\<close>, an \<open>OSError\<close> is passed over.\<close>

definition clear_cached_token :: "event list" where
  "clear_cached_token = [Unlink]"

text \<open>The test of the \<open>except Unauthorized\<close> handler, on \<open>str(e)\<close>.\<close>

definition wants_code :: "string \<Rightarrow> bool" where
  "wants_code m = (contains (lower m) ''verification code'' \<or> contains m ''1029'')"

text \<open>Lines 130 to 131: the username in hand, or one stripped line from the terminal.\<close>

definition ask_username :: "auth_env \<Rightarrow> string option \<Rightarrow> (exn + string) \<times> event list" where
  "ask_username env username =
     (case username of
        Some u \<Rightarrow>
          if u = [] then (map_sum id strip (input_username env), [Input ''Plex.tv username: ''])
          else (Inr u, [])
      | None \<Rightarrow> (map_sum id strip (input_username env), [Input ''Plex.tv username: '']))"

text \<open>Lines 132 to 133: the password in hand, or one line from \<open>getpass\<close>, as typed.\<close>

definition ask_password :: "auth_env \<Rightarrow> string option \<Rightarrow> (exn + string) \<times> event list" where
  "ask_password env password =
     (case password of
        Some p \<Rightarrow>
          if p = [] then (getpass_password env, [Getpass ''Plex.tv password: ''])
          else (Inr p, [])
      | None \<Rightarrow> (getpass_password env, [Getpass ''Plex.tv password: '']))"

text \<open>
  Lines 137 to 144: the login by password; on \<open>Unauthorized\<close> whose text asks for a
  code, one prompt and the login with the code, whose exception is not handled here.
\<close>

definition try_password :: "auth_env \<Rightarrow> string \<Rightarrow> string \<Rightarrow> (exn + account) \<times> event list" where
  "try_password env u p =
     (case password_login env u p None of
        Inr account \<Rightarrow> (Inr account, [PasswordLogin u p None])
      | Inl e \<Rightarrow>
          (case e of
             Unauthorized m \<Rightarrow>
               if wants_code m then
                 (case input_code env of
                    Inl e2 \<Rightarrow> (Inl e2, [PasswordLogin u p None, Input ''2FA verification code: ''])
                  | Inr line \<Rightarrow>
                      (password_login env u p (Some (strip line)),
                       [PasswordLogin u p None, Input ''2FA verification code: '',
                        PasswordLogin u p (Some (strip line))]))
               else (Inl e, [PasswordLogin u p None])
           | _ \<Rightarrow> (Inl e, [PasswordLogin u p None])))"

text \<open>Lines 124 to 150: the fall-back to username and password.\<close>

definition login_with_password ::
  "auth_env \<Rightarrow> string option \<Rightarrow> string option \<Rightarrow> (exn + account) \<times> event list" where
  "login_with_password env username password =
     (let username = (if not_str username then config_username env else username);
          password = (if not_str password then config_password env else password);
          (ru, tr1) = ask_username env username
      in case ru of
           Inl e \<Rightarrow> (Inl e, tr1)
         | Inr u \<Rightarrow>
             (let (rp, tr2) = ask_password env password
              in case rp of
                   Inl e \<Rightarrow> (Inl e, tr1 @ tr2)
                 | Inr p \<Rightarrow>
                     (let tr3 = tr1 @ tr2 @ [Print (''Authenticating with Plex.tv as '' @ u @ ''...'')];
                          (ra, tr4) = try_password env u p
                      in case ra of
                           Inl e \<Rightarrow> (Inl e, tr3 @ tr4)
                         | Inr account \<Rightarrow>
                             (Inr account,
                              tr3 @ tr4 @ save_cached_token env (authToken account)
                                @ [Print ''Credentials cached for future use.'']))))"

text \<open>
  \<open>authenticate_myplex\<close>: the result (the account, or the exception that leaves the
  function) and the events up to there.
\<close>

definition authenticate_myplex ::
  "auth_env \<Rightarrow> string option \<Rightarrow> string option \<Rightarrow> (exn + account) \<times> event list" where
  "authenticate_myplex env username password =
     (case load_cached_token (creds env) of
        Inl e \<Rightarrow> (Inl e, [])
      | Inr cached_token \<Rightarrow>
          if truthy cached_token then
            (case token_login env cached_token of
               Inr account \<Rightarrow>
                 (Inr account, [Print ''Using cached credentials...'', TokenLogin cached_token])
             | Inl e \<Rightarrow>
                 (case e of
                    Unauthorized m \<Rightarrow>
                      (let (r, tr) = login_with_password env username password
                       in (r, [Print ''Using cached credentials...'', TokenLogin cached_token,
                               Print ''Cached credentials expired, re-authenticating...'']
                              @ clear_cached_token @ tr))
                  | _ \<Rightarrow> (Inl e, [Print ''Using cached credentials...'', TokenLogin cached_token])))
          else login_with_password env username password)"

text \<open>
  The \<open>try\<close> of \<open>main\<close> (lines 400 and 436 to 438) around a call: \<open>except Exception\<close>
  prints \<open>Error: ...\<close> and exits with status 1; what is not an \<open>Exception\<close> leaves \<open>main\<close>.
\<close>

definition main_try :: "(exn + 'a) \<times> event list \<Rightarrow> 'a ending \<times> event list" where
  "main_try r =
     (case r of
        (Inr v, tr) \<Rightarrow> (Continues v, tr)
      | (Inl e, tr) \<Rightarrow>
          if is_Exception e then (SysExit 1, tr @ [Print (''Error: '' @ exn_str e)])
          else (Traceback e, tr))"

text \<open>Line 419 of \<open>main\<close>, inside that \<open>try\<close>.\<close>

definition main_authenticate ::
  "auth_env \<Rightarrow> string option \<Rightarrow> string option \<Rightarrow> account ending \<times> event list" where
  "main_authenticate env username password = main_try (authenticate_myplex env username password)"

subsection \<open>EligibilityFilter: \<open>get_item_filepaths\<close>, \<open>is_title_locked\<close>\<close>

text \<open>The loop of \<open>get_item_filepaths\<close>: a part counts when \<open>part and part.file\<close>.\<close>

fun collect_files :: "part option list \<Rightarrow> string list" where
  "collect_files [] = []"
| "collect_files (p # ps) =
     (case p of
        None \<Rightarrow> collect_files ps
      | Some part \<Rightarrow>
          (case part_file part of
             None \<Rightarrow> collect_files ps
           | Some f \<Rightarrow> if f = [] then collect_files ps else f # collect_files ps))"

definition get_item_filepaths :: "item \<Rightarrow> string list" where
  "get_item_filepaths item =
     (case parts item of None \<Rightarrow> [] | Some ps \<Rightarrow> collect_files ps)"

text \<open>The loop of \<open>is_title_locked\<close>: true at the first locked field named \<open>title\<close>.\<close>

fun any_locked_title :: "field list \<Rightarrow> bool" where
  "any_locked_title [] = False"
| "any_locked_title (f # fs) =
     (if name f = ''title'' \<and> locked f then True else any_locked_title fs)"

definition is_title_locked :: "item \<Rightarrow> bool" where
  "is_title_locked item =
     (case item_fields item of None \<Rightarrow> False | Some fs \<Rightarrow> any_locked_title fs)"

subsection \<open>TitleGenerator: \<open>generate_title\<close>\<close>

text \<open>
  \<open>create\<close> is \<open>client.chat.completions.create\<close> for this one call: it raises or returns
  a completion. \<open>response.choices[0]\<close> raises \<open>IndexError\<close> on an empty list, and
  \<open>.strip()\<close> on a \<open>None\<close> content raises \<open>AttributeError\<close>. The function makes one
  request, whatever comes back; \<open>completion_request\<close> is the keyword arguments of lines
  253 to 258.
\<close>

definition completion_request :: "aiconfig \<Rightarrow> string \<Rightarrow> chat_request" where
  "completion_request config filename =
     \<lparr>req_model = model config, req_temperature = temperature config,
      req_messages = [(''system'', system_prompt config), (''user'', filename)]\<rparr>"

definition generate_title ::
  "(chat_request \<Rightarrow> exn + response) \<Rightarrow> aiconfig \<Rightarrow> string \<Rightarrow> (exn + string) \<times> event list" where
  "generate_title create config filename =
     (let request = completion_request config filename
      in (case create request of
            Inl e \<Rightarrow> Inl e
          | Inr response \<Rightarrow>
              (case choices response of
                 [] \<Rightarrow> Inl (IndexError ''list index out of range'')
               | c # cs \<Rightarrow>
                   (case message_content c of
                      None \<Rightarrow> Inl (AttributeError
                        (quoted ''NoneType'' @ '' object has no attribute '' @ quoted ''strip''))
                    | Some text \<Rightarrow> Inr (strip text))),
          [ChatRequest request]))"

subsection \<open>BatchProcessor: \<open>process_library_items\<close>\<close>

text \<open>
  The library section and the service behind it. \<open>'w\<close> is the state of the catalog
  service: \<open>all_items\<close> is \<open>library.all()\<close> in that state, and \<open>editTitle\<close> is
  \<open>item.editTitle(new_title)\<close>, which raises or not and leaves a new state.
\<close>

record 'w library =
  library_title :: string
  locations :: "string list"
  all_items :: "'w \<Rightarrow> item list"
  editTitle :: "'w \<Rightarrow> item \<Rightarrow> string \<Rightarrow> exn option \<times> 'w"

text \<open>
  The variables of the run: the four counters (Python integers), what has happened so far,
  how many requests the language-model service has received in this run, and the state
  of the catalog service.
\<close>

record 'w run =
  processed :: int
  skipped_locked :: int
  skipped_no_file :: int
  errors :: int
  out :: "event list"
  requests :: nat
  world :: "'w"

text \<open>
  The handler \<open>except Exception as e\<close> of the loop body: an \<open>Exception\<close> is printed and
  counted; anything else leaves the loop.
\<close>

definition on_exception :: "item \<Rightarrow> exn \<Rightarrow> 'w run \<Rightarrow> exn option \<times> 'w run" where
  "on_exception item e st =
     (if is_Exception e
      then (None, st\<lparr>out := out st @ [Print (''ERROR: '' @ title item @ '': '' @ exn_str e)],
                     errors := errors st + 1\<rparr>)
      else (Some e, st))"

text \<open>
  The loop body, lines 281 to 312. \<open>client n\<close> is the language-model service at its
  \<open>n\<close>-th request of the run. The result is the exception that leaves the loop, if any,
  and the variables after the item.
\<close>

definition process_item ::
  "'w library \<Rightarrow> (nat \<Rightarrow> chat_request \<Rightarrow> exn + response) \<Rightarrow> aiconfig \<Rightarrow> bool \<Rightarrow> item \<Rightarrow> 'w run
     \<Rightarrow> exn option \<times> 'w run" where
  "process_item library client config dry_run item st =
     (case get_item_filepaths item of
        [] \<Rightarrow> (None, st\<lparr>skipped_no_file := skipped_no_file st + 1\<rparr>)
      | filepath # rest \<Rightarrow>
          if is_title_locked item then
            (None, st\<lparr>skipped_locked := skipped_locked st + 1,
                       out := out st @ [Print (''SKIP (locked): '' @ title item)]\<rparr>)
          else
            (let relative_path = get_relative_path filepath (locations library);
                 current_title = title item;
                 (r, evs) = generate_title (client (requests st)) config relative_path;
                 st1 = st\<lparr>out := out st @ evs, requests := requests st + 1\<rparr>
             in case r of
                  Inl e \<Rightarrow> on_exception item e st1
                | Inr new_title \<Rightarrow>
                    if dry_run then
                      (None, st1\<lparr>out := out st1 @
                                 [Print (''DRY RUN: '' @ quoted current_title @ '' -> '' @ quoted new_title),
                                  Print (''  Path: '' @ relative_path)],
                               processed := processed st1 + 1\<rparr>)
                    else
                      (let st2 = st1\<lparr>out := out st1 @
                                 [Print (''UPDATE: '' @ quoted current_title @ '' -> '' @ quoted new_title),
                                  Print (''  Path: '' @ relative_path),
                                  EditTitle item new_title]\<rparr>;
                           (r2, w) = editTitle library (world st2) item new_title;
                           st3 = st2\<lparr>world := w\<rparr>
                       in case r2 of
                            Some e \<Rightarrow> on_exception item e st3
                          | None \<Rightarrow> (None, st3\<lparr>processed := processed st3 + 1\<rparr>))))"

text \<open>The \<open>for\<close> loop: it stops at an exception that leaves the body.\<close>

fun process_items ::
  "'w library \<Rightarrow> (nat \<Rightarrow> chat_request \<Rightarrow> exn + response) \<Rightarrow> aiconfig \<Rightarrow> bool \<Rightarrow> item list \<Rightarrow> 'w run
     \<Rightarrow> exn option \<times> 'w run" where
  "process_items library client config dry_run [] st = (None, st)"
| "process_items library client config dry_run (item # items) st =
     (case process_item library client config dry_run item st of
        (Some e, st') \<Rightarrow> (Some e, st')
      | (None, st') \<Rightarrow> process_items library client config dry_run items st')"

text \<open>Lines 268 to 278: the two header lines, the rule, the counters at zero.\<close>

definition start_run :: "'w library \<Rightarrow> item list \<Rightarrow> 'w \<Rightarrow> 'w run" where
  "start_run library items w =
     \<lparr>processed = 0, skipped_locked = 0, skipped_no_file = 0, errors = 0,
      out = [Print (''\<newline>Scanning library: '' @ library_title library @ ''...''),
             Print (''Found '' @ str_nat (length items) @ '' items in ''
                    @ quoted (library_title library)),
             Print (replicate 80 CHR ''='')],
      requests = 0, world = w\<rparr>"

text \<open>Lines 314 to 322: the rule, the four counters, the notice of a dry run.\<close>

definition summary :: "bool \<Rightarrow> 'w run \<Rightarrow> event list" where
  "summary dry_run st =
     [Print (replicate 80 CHR ''=''),
      Print ''\<newline>Summary:'',
      Print (''  Processed: '' @ str_int (processed st)),
      Print (''  Skipped (locked): '' @ str_int (skipped_locked st)),
      Print (''  Skipped (no file): '' @ str_int (skipped_no_file st)),
      Print (''  Errors: '' @ str_int (errors st))]
     @ (if dry_run then [Print ''\<newline>This was a DRY RUN. No changes were made.''] else [])"

text \<open>
  \<open>process_library_items\<close> from the state \<open>w\<close> of the catalog service: the exception
  that leaves the function, if any, and the variables at that point.
\<close>

definition process_library_items ::
  "'w library \<Rightarrow> (nat \<Rightarrow> chat_request \<Rightarrow> exn + response) \<Rightarrow> aiconfig \<Rightarrow> bool \<Rightarrow> 'w
     \<Rightarrow> exn option \<times> 'w run" where
  "process_library_items library client config dry_run w =
     (let items = all_items library w
      in case process_items library client config dry_run items (start_run library items w) of
           (Some e, st) \<Rightarrow> (Some e, st)
         | (None, st) \<Rightarrow> (None, st\<lparr>out := out st @ summary dry_run st\<rparr>))"

subsection \<open>Example inputs\<close>

text \<open>Concrete inputs at which the theorems below are instantiated.\<close>

definition example_config :: aiconfig where
  "example_config =
     \<lparr>endpoint = ''https://api.openai.com/v1'', model = ''gpt-4'',
      system_prompt = ''Return a clean title'', temperature = 0, api_key = ''''\<rparr>"

text \<open>A service whose completion is the empty string, and one whose completion is padded.\<close>

definition empty_completion :: "chat_request \<Rightarrow> exn + response" where
  "empty_completion request = Inr (Response [Choice (Some [])])"

definition padded_completion :: "chat_request \<Rightarrow> exn + response" where
  "padded_completion request = Inr (Response [Choice (Some ''  Inception '')])"

text \<open>
  Five catalog items: one with a locked title, one plain, one without any usable file part,
  one more plain pair; and an item whose title is locked but which has no file part.
\<close>

definition item_locked :: item where
  "item_locked =
     \<lparr>title = ''Old A'',
      item_fields = Some [\<lparr>name = ''summary'', locked = False\<rparr>, \<lparr>name = ''title'', locked = True\<rparr>],
      parts = Some [Some (Part (Some ''/media/Movies/A/a.mkv''))]\<rparr>"

definition item_plain :: item where
  "item_plain =
     \<lparr>title = ''Old B'', item_fields = Some [],
      parts = Some [Some (Part (Some ''/media/Movies/Inception (2010)/Inception.mkv''))]\<rparr>"

definition item_no_file :: item where
  "item_no_file =
     \<lparr>title = ''Old C'', item_fields = None,
      parts = Some [None, Some (Part None), Some (Part (Some ''''))]\<rparr>"

definition item_failing :: item where
  "item_failing =
     \<lparr>title = ''Old D'', item_fields = Some [\<lparr>name = ''title'', locked = False\<rparr>],
      parts = Some [Some (Part (Some ''/x/d.mkv''))]\<rparr>"

definition item_last :: item where
  "item_last =
     \<lparr>title = ''Old E'', item_fields = None,
      parts = Some [Some (Part (Some ''/media/Movies/E/e.mkv''))]\<rparr>"

definition item_locked_no_file :: item where
  "item_locked_no_file =
     \<lparr>title = ''Old F'', item_fields = Some [\<lparr>name = ''title'', locked = True\<rparr>],
      parts = Some []\<rparr>"

text \<open>
  A library of the first five items. The state of its catalog service is the list of the
  write-backs it has received, and every write-back succeeds.
\<close>

definition example_library :: "(item \<times> string) list library" where
  "example_library =
     \<lparr>library_title = ''Movies'', locations = [''/media/Movies/''],
      all_items = (\<lambda>w. [item_locked, item_plain, item_no_file, item_failing, item_last]),
      editTitle = (\<lambda>w item new_title. (None, w @ [(item, new_title)]))\<rparr>"

text \<open>A language-model service whose second request of a run fails in transport.\<close>

definition example_client :: "nat \<Rightarrow> chat_request \<Rightarrow> exn + response" where
  "example_client n request =
     (if n = 1 then Inl (OtherException ''Connection error.'')
      else Inr (Response [Choice (Some ''  Inception '')]))"



text \<open>
  An account with two-factor protection and nothing cached or configured: the service asks
  for a code, then accepts. Variants: a cached token that the service accepts; the terminal
  at end of input at the first prompt; an interrupt at the prompt for the code; a
  credential file that holds the JSON text \<open>[]\<close>.
\<close>

definition example_env :: auth_env where
  "example_env =
     \<lparr>creds = NoFile,
      token_login = (\<lambda>token. if token = JStr ''abc'' then Inr (Account ''abc'')
                               else Inl (Unauthorized ''(401) unauthorized'')),
      password_login = (\<lambda>u p code.
         if code = None then Inl (Unauthorized ''(401) unauthorized; Please enter the Verification Code'')
         else Inr (Account ''fresh'')),
      config_username = None, config_password = None,
      input_username = Inr '' bob '', getpass_password = Inr ''secret'',
      input_code = Inr ''123456 '',
      creds_write_error = None, creds_chmod_error = None\<rparr>"

definition cached_env :: auth_env where
  "cached_env = example_env\<lparr>creds := Opened (Inr (JObj [(''auth_token'', JStr ''abc'')]))\<rparr>"

definition eof_env :: auth_env where
  "eof_env = example_env\<lparr>input_username := Inl (EOFError ''EOF when reading a line'')\<rparr>"

definition interrupt_env :: auth_env where
  "interrupt_env = example_env\<lparr>input_code := Inl KeyboardInterrupt\<rparr>"

definition array_env :: auth_env where
  "array_env = example_env\<lparr>creds := Opened (Inr (JArr []))\<rparr>"

section \<open>Properties\<close>

subsection \<open>String helpers\<close>

lemma startswith_split: "startswith s p \<Longrightarrow> s = p @ drop (length p) s"
  unfolding startswith_def by (metis append_take_drop_id)

lemma startswith_append: "startswith (p @ r) (p @ q) = startswith r q"
  unfolding startswith_def by simp

lemma basename_no_sep: "os_sep \<notin> set (basename p)"
  unfolding basename_def using set_takeWhileD by fastforce

lemma basename_split: "\<exists>d. p = d @ basename p \<and> (d = [] \<or> last d = os_sep)"
proof -
  let ?d = "rev (dropWhile (\<lambda>c. c \<noteq> os_sep) (rev p))"
  have "p = ?d @ basename p"
    unfolding basename_def by (metis rev_append rev_rev_ident takeWhile_dropWhile_id)
  moreover have "?d = [] \<or> last ?d = os_sep"
  proof (cases "dropWhile (\<lambda>c. c \<noteq> os_sep) (rev p)")
    case Nil
    then show ?thesis by simp
  next
    case (Cons a as)
    then have "a = os_sep" using hd_dropWhile[of "\<lambda>c. c \<noteq> os_sep" "rev p"] by simp
    with Cons show ?thesis by simp
  qed
  ultimately show ?thesis by blast
qed

lemma rstrip_sep_split: "\<exists>k. l = rstrip_sep l @ replicate k os_sep"
proof -
  let ?t = "takeWhile (\<lambda>c. c = os_sep) (rev l)"
  have "rev l = ?t @ dropWhile (\<lambda>c. c = os_sep) (rev l)"
    by simp
  moreover have "?t = replicate (length ?t) os_sep"
    by (metis (mono_tags, lifting) replicate_length_same set_takeWhileD)
  ultimately have "rev l = replicate (length ?t) os_sep @ dropWhile (\<lambda>c. c = os_sep) (rev l)"
    by simp
  then have "l = rev (dropWhile (\<lambda>c. c = os_sep) (rev l)) @ replicate (length ?t) os_sep"
    by (metis rev_append rev_replicate rev_rev_ident)
  then show ?thesis unfolding rstrip_sep_def by blast
qed

lemma rstrip_sep_last: "rstrip_sep l = [] \<or> last (rstrip_sep l) \<noteq> os_sep"
proof (cases "dropWhile (\<lambda>c. c = os_sep) (rev l)")
  case Nil
  then show ?thesis by (simp add: rstrip_sep_def)
next
  case (Cons a as)
  then have "a \<noteq> os_sep" using hd_dropWhile[of "\<lambda>c. c = os_sep" "rev l"] by auto
  with Cons show ?thesis by (simp add: rstrip_sep_def)
qed

lemma strip_split:
  "\<exists>l r. s = l @ strip s @ r \<and> list_all isspace l \<and> list_all isspace r"
proof -
  let ?m = "dropWhile isspace s"
  have a: "s = takeWhile isspace s @ ?m" by simp
  have b: "?m = strip s @ rev (takeWhile isspace (rev ?m))"
    unfolding strip_def by (metis rev_append rev_rev_ident takeWhile_dropWhile_id)
  have c: "list_all isspace (takeWhile isspace s)"
    unfolding list_all_iff using set_takeWhileD by fastforce
  have d: "list_all isspace (rev (takeWhile isspace (rev ?m)))"
    unfolding list_all_iff using set_takeWhileD by fastforce
  from a b have "s = takeWhile isspace s @ strip s @ rev (takeWhile isspace (rev ?m))"
    by metis
  with c d show ?thesis by blast
qed

lemma strip_last: "strip s \<noteq> [] \<Longrightarrow> \<not> isspace (last (strip s))"
proof -
  assume ne: "strip s \<noteq> []"
  let ?d = "dropWhile isspace (rev (dropWhile isspace s))"
  from ne have "?d \<noteq> []" by (simp add: strip_def)
  then have "\<not> isspace (hd ?d)" by (rule hd_dropWhile)
  moreover have "last (strip s) = hd ?d"
    unfolding strip_def using \<open>?d \<noteq> []\<close> by (simp add: last_rev)
  ultimately show ?thesis by simp
qed

lemma strip_hd: "strip s \<noteq> [] \<Longrightarrow> \<not> isspace (hd (strip s))"
proof -
  assume ne: "strip s \<noteq> []"
  let ?m = "dropWhile isspace s"
  have b: "?m = strip s @ rev (takeWhile isspace (rev ?m))"
    unfolding strip_def by (metis rev_append rev_rev_ident takeWhile_dropWhile_id)
  have mne: "?m \<noteq> []"
  proof
    assume "?m = []"
    then have "strip s = rev (dropWhile isspace (rev []))" by (simp only: strip_def)
    with ne show False by simp
  qed
  from b ne have "hd ?m = hd (strip s)" by (metis hd_append2)
  moreover from mne have "\<not> isspace (hd ?m)" by (rule hd_dropWhile)
  ultimately show ?thesis by simp
qed

lemma strip_all_space: "list_all isspace s \<Longrightarrow> strip s = []"
proof -
  assume "list_all isspace s"
  then have "dropWhile isspace s = []" by (simp only: dropWhile_eq_Nil_conv list_all_iff)
  then have "strip s = rev (dropWhile isspace (rev []))" by (simp only: strip_def)
  then show ?thesis by simp
qed

subsection \<open>PathResolver\<close>

lemma get_relative_path_at_first_match:
  "i < length locs \<Longrightarrow> startswith fp (location_prefix (locs ! i)) \<Longrightarrow>
   (\<forall>j<i. \<not> startswith fp (location_prefix (locs ! j))) \<Longrightarrow>
   get_relative_path fp locs = drop (length (location_prefix (locs ! i))) fp"
proof (induction locs arbitrary: i)
  case Nil
  then show ?case by simp
next
  case (Cons l ls)
  show ?case
  proof (cases i)
    case 0
    with Cons.prems show ?thesis by simp
  next
    case (Suc k)
    from Cons.prems(3) Suc have nohead: "\<not> startswith fp (location_prefix l)"
      by (metis nth_Cons_0 zero_less_Suc)
    have later: "\<forall>j<k. \<not> startswith fp (location_prefix (ls ! j))"
      using Cons.prems(3) Suc by (metis Suc_less_eq nth_Cons_Suc)
    from Cons.prems(1,2) Suc have "k < length ls" "startswith fp (location_prefix (ls ! k))"
      by simp_all
    from Cons.IH[OF this later] nohead Suc show ?thesis by simp
  qed
qed

lemma get_relative_path_no_match:
  "(\<forall>l \<in> set locs. \<not> startswith fp (location_prefix l)) \<Longrightarrow>
   get_relative_path fp locs = basename fp"
  by (induction locs) simp_all

text \<open>
  C6, as the code has it. When the path starts with the prefix of some root, the result is
  what follows the prefix of the earliest such root in input order, and it begins with a
  separator exactly when the path has a further separator right after that prefix. When
  the path starts with no root's prefix, the result is the basename: it holds no separator
  and what precedes it in the path is empty or ends with a separator. The prefix of a root
  is the root without its trailing separators, followed by one separator.
\<close>

theorem get_relative_path_first_root:
  "(\<forall>i. i < length locs \<and> startswith fp (location_prefix (locs ! i))
        \<and> (\<forall>j<i. \<not> startswith fp (location_prefix (locs ! j)))
      \<longrightarrow> fp = location_prefix (locs ! i) @ get_relative_path fp locs
        \<and> (startswith (get_relative_path fp locs) [os_sep]
             \<longleftrightarrow> startswith fp (location_prefix (locs ! i) @ [os_sep])))
   \<and> ((\<forall>l \<in> set locs. \<not> startswith fp (location_prefix l))
      \<longrightarrow> get_relative_path fp locs = basename fp \<and> os_sep \<notin> set (basename fp)
        \<and> (\<exists>d. fp = d @ basename fp \<and> (d = [] \<or> last d = os_sep)))
   \<and> (\<forall>l. \<exists>r k. l = r @ replicate k os_sep \<and> (r = [] \<or> last r \<noteq> os_sep)
        \<and> location_prefix l = r @ [os_sep])"
proof (intro conjI allI impI)
  fix i
  assume h: "i < length locs \<and> startswith fp (location_prefix (locs ! i))
        \<and> (\<forall>j<i. \<not> startswith fp (location_prefix (locs ! j)))"
  then have eq: "get_relative_path fp locs = drop (length (location_prefix (locs ! i))) fp"
    using get_relative_path_at_first_match by blast
  with h show split: "fp = location_prefix (locs ! i) @ get_relative_path fp locs"
    using startswith_split by simp
  show "startswith (get_relative_path fp locs) [os_sep]
             \<longleftrightarrow> startswith fp (location_prefix (locs ! i) @ [os_sep])"
    using startswith_append[of "location_prefix (locs ! i)" "get_relative_path fp locs" "[os_sep]"]
      split by simp
next
  assume "\<forall>l \<in> set locs. \<not> startswith fp (location_prefix l)"
  then show "get_relative_path fp locs = basename fp" by (rule get_relative_path_no_match)
next
  show "os_sep \<notin> set (basename fp)" by (rule basename_no_sep)
next
  show "\<exists>d. fp = d @ basename fp \<and> (d = [] \<or> last d = os_sep)" by (rule basename_split)
next
  fix l
  from rstrip_sep_split obtain k where "l = rstrip_sep l @ replicate k os_sep" by blast
  with rstrip_sep_last[of l]
  show "\<exists>r k. l = r @ replicate k os_sep \<and> (r = [] \<or> last r \<noteq> os_sep)
        \<and> location_prefix l = r @ [os_sep]"
    unfolding location_prefix_def by blast
qed

theorem get_relative_path_first_root_witness:
  "get_relative_path ''/media/Movies/Inception (2010)/Inception.mkv''
       [''/srv'', ''/media/Movies/'', ''/media'']
     = ''Inception (2010)/Inception.mkv''
   \<and> get_relative_path ''/tmp/clip.mkv'' [''/media''] = ''clip.mkv''"
proof -
  let ?fp = "''/media/Movies/Inception (2010)/Inception.mkv''"
  let ?locs = "[''/srv'', ''/media/Movies/'', ''/media'']"
  have p: "location_prefix (?locs ! 1) = ''/media/Movies/''"
    by (simp add: location_prefix_def rstrip_sep_def os_sep_def)
  have h: "(1::nat) < length ?locs \<and> startswith ?fp (location_prefix (?locs ! 1))
        \<and> (\<forall>j<1. \<not> startswith ?fp (location_prefix (?locs ! j)))"
    by (simp add: startswith_def location_prefix_def rstrip_sep_def os_sep_def)
  from get_relative_path_first_root[of ?locs ?fp] h
  have "?fp = location_prefix (?locs ! 1) @ get_relative_path ?fp ?locs" by blast
  then have a: "get_relative_path ?fp ?locs = ''Inception (2010)/Inception.mkv''"
    unfolding p by simp
  have n: "\<forall>l \<in> set [''/media'']. \<not> startswith ''/tmp/clip.mkv'' (location_prefix l)"
    by (simp add: startswith_def location_prefix_def rstrip_sep_def os_sep_def)
  from get_relative_path_first_root[of "[''/media'']" "''/tmp/clip.mkv''"] n
  have "get_relative_path ''/tmp/clip.mkv'' [''/media''] = basename ''/tmp/clip.mkv''" by blast
  then have b: "get_relative_path ''/tmp/clip.mkv'' [''/media''] = ''clip.mkv''"
    by (simp add: basename_def os_sep_def)
  from a b show ?thesis by blast
qed

text \<open>
  C6 as stated fails: under the root \<open>/media\<close> the path \<open>/media//x\<close> starts with the
  prefix \<open>/media/\<close>, and what follows it, \<open>/x\<close>, begins with a separator.
\<close>

theorem get_relative_path_leading_sep_counterexample:
  "startswith ''/media//x'' (location_prefix ''/media'')
   \<and> get_relative_path ''/media//x'' [''/media''] = ''/x''
   \<and> startswith (get_relative_path ''/media//x'' [''/media'']) [os_sep]"
  by (simp add: startswith_def location_prefix_def rstrip_sep_def os_sep_def)

subsection \<open>TitleGenerator\<close>

text \<open>
  C8, as the code has it. An exception of the request is passed on; a completion with no
  choice fails with \<open>IndexError\<close>, one whose first content is \<open>None\<close> with
  \<open>AttributeError\<close>. A first content that is a string never fails: the result is that
  string without its leading and trailing whitespace (what was cut off is whitespace only,
  and a result that is not empty neither begins nor ends with whitespace), so an empty or
  all-whitespace completion gives the empty title. One request is made in every case.
\<close>

theorem generate_title_outcome:
  "(\<forall>e. create (completion_request config filename) = Inl e
       \<longrightarrow> fst (generate_title create config filename) = Inl e)
   \<and> (create (completion_request config filename) = Inr (Response [])
       \<longrightarrow> fst (generate_title create config filename) = Inl (IndexError ''list index out of range''))
   \<and> (\<forall>cs. create (completion_request config filename) = Inr (Response (Choice None # cs))
       \<longrightarrow> (\<exists>m. fst (generate_title create config filename) = Inl (AttributeError m)))
   \<and> (\<forall>text cs. create (completion_request config filename) = Inr (Response (Choice (Some text) # cs))
       \<longrightarrow> fst (generate_title create config filename) = Inr (strip text)
         \<and> (\<exists>l r. text = l @ strip text @ r \<and> list_all isspace l \<and> list_all isspace r)
         \<and> (strip text \<noteq> [] \<longrightarrow> \<not> isspace (hd (strip text)) \<and> \<not> isspace (last (strip text)))
         \<and> (list_all isspace text \<longrightarrow> strip text = []))
   \<and> snd (generate_title create config filename) = [ChatRequest (completion_request config filename)]"
  using strip_split strip_hd strip_last strip_all_space
  by (simp add: generate_title_def Let_def)

theorem generate_title_outcome_witness:
  "padded_completion (completion_request example_config ''Inception (2010)/Inception.mkv'')
     = Inr (Response [Choice (Some ''  Inception '')])
   \<and> fst (generate_title padded_completion example_config ''Inception (2010)/Inception.mkv'')
     = Inr ''Inception''"
proof -
  let ?fn = "''Inception (2010)/Inception.mkv''"
  have h: "padded_completion (completion_request example_config ?fn)
     = Inr (Response (Choice (Some ''  Inception '') # []))"
    by (simp add: padded_completion_def)
  have s: "strip ''  Inception '' = ''Inception''"
    by (simp add: strip_def isspace_def)
  from generate_title_outcome[of padded_completion example_config ?fn] h
  have "fst (generate_title padded_completion example_config ?fn) = Inr (strip ''  Inception '')"
    by blast
  with h s show ?thesis by simp
qed

text \<open>
  C8 as stated fails: for a completion whose text is the empty string, \<open>generate_title\<close>
  returns the empty string as the title; no failure reaches the caller.
\<close>

theorem generate_title_empty_completion_counterexample:
  "empty_completion (completion_request example_config ''clip.mkv'')
     = Inr (Response [Choice (Some '''')])
   \<and> fst (generate_title empty_completion example_config ''clip.mkv'') = Inr ''''"
  by (simp add: generate_title_def empty_completion_def strip_def Let_def)

subsection \<open>BatchProcessor\<close>

lemma generate_title_events:
  "snd (generate_title create config filename) = [ChatRequest (completion_request config filename)]"
  by (simp add: generate_title_def Let_def)

lemma generate_title_pair:
  "generate_title create config filename
     = (fst (generate_title create config filename), [ChatRequest (completion_request config filename)])"
  by (metis generate_title_events prod.collapse)

lemma process_item_no_file:
  "get_item_filepaths item = [] \<Longrightarrow>
   process_item library client config dry_run item st
     = (None, st\<lparr>skipped_no_file := skipped_no_file st + 1\<rparr>)"
  by (simp add: process_item_def)

lemma process_item_locked:
  "get_item_filepaths item = fp # rest \<Longrightarrow> is_title_locked item \<Longrightarrow>
   process_item library client config dry_run item st
     = (None, st\<lparr>skipped_locked := skipped_locked st + 1,
                   out := out st @ [Print (''SKIP (locked): '' @ title item)]\<rparr>)"
  by (simp add: process_item_def)

lemma process_item_gen_error:
  assumes "get_item_filepaths item = fp # rest" and "\<not> is_title_locked item"
    and "fst (generate_title (client (requests st)) config
                (get_relative_path fp (locations library))) = Inl e"
  shows "process_item library client config dry_run item st
     = on_exception item e
         (st\<lparr>out := out st @ [ChatRequest (completion_request config
                                  (get_relative_path fp (locations library)))],
             requests := requests st + 1\<rparr>)"
proof -
  have "generate_title (client (requests st)) config (get_relative_path fp (locations library))
      = (Inl e, [ChatRequest (completion_request config (get_relative_path fp (locations library)))])"
    using assms(3) generate_title_pair by metis
  with assms(1,2) show ?thesis by (cases st) (simp add: process_item_def Let_def)
qed

lemma process_item_dry_run:
  assumes "get_item_filepaths item = fp # rest" and "\<not> is_title_locked item"
    and "fst (generate_title (client (requests st)) config
                (get_relative_path fp (locations library))) = Inr t"
    and "dry_run"
  shows "process_item library client config dry_run item st
     = (None, st\<lparr>out := out st @
                    [ChatRequest (completion_request config (get_relative_path fp (locations library))),
                     Print (''DRY RUN: '' @ quoted (title item) @ '' -> '' @ quoted t),
                     Print (''  Path: '' @ get_relative_path fp (locations library))],
                  requests := requests st + 1,
                  processed := processed st + 1\<rparr>)"
proof -
  have "generate_title (client (requests st)) config (get_relative_path fp (locations library))
      = (Inr t, [ChatRequest (completion_request config (get_relative_path fp (locations library)))])"
    using assms(3) generate_title_pair by metis
  with assms(1,2,4) show ?thesis by (cases st) (simp add: process_item_def Let_def)
qed

lemma process_item_edit:
  assumes "get_item_filepaths item = fp # rest" and "\<not> is_title_locked item"
    and "fst (generate_title (client (requests st)) config
                (get_relative_path fp (locations library))) = Inr t"
    and "\<not> dry_run"
    and "editTitle library (world st) item t = (r2, w)"
  shows "process_item library client config dry_run item st
     = (let st3 = st\<lparr>out := out st @
                    [ChatRequest (completion_request config (get_relative_path fp (locations library))),
                     Print (''UPDATE: '' @ quoted (title item) @ '' -> '' @ quoted t),
                     Print (''  Path: '' @ get_relative_path fp (locations library)),
                     EditTitle item t],
                  requests := requests st + 1,
                  world := w\<rparr>
        in case r2 of Some e \<Rightarrow> on_exception item e st3
                    | None \<Rightarrow> (None, st3\<lparr>processed := processed st + 1\<rparr>))"
proof -
  have "generate_title (client (requests st)) config (get_relative_path fp (locations library))
      = (Inr t, [ChatRequest (completion_request config (get_relative_path fp (locations library)))])"
    using assms(3) generate_title_pair by metis
  with assms(1,2,4,5) show ?thesis
    by (cases st) (simp add: process_item_def Let_def split: option.splits)
qed



lemma on_exception_passed: "\<not> is_Exception e \<Longrightarrow> on_exception item e st = (Some e, st)"
  by (simp add: on_exception_def)

lemma process_item_cases:
  obtains
    (no_file) "get_item_filepaths item = []"
  | (locked) fp rest where "get_item_filepaths item = fp # rest" "is_title_locked item"
  | (gen_error) fp rest e where "get_item_filepaths item = fp # rest" "\<not> is_title_locked item"
      "fst (generate_title (client (requests st)) config
             (get_relative_path fp (locations library))) = Inl e"
  | (dry) fp rest t where "get_item_filepaths item = fp # rest" "\<not> is_title_locked item"
      "fst (generate_title (client (requests st)) config
             (get_relative_path fp (locations library))) = Inr t" "dry_run"
  | (edit) fp rest t r2 w where "get_item_filepaths item = fp # rest" "\<not> is_title_locked item"
      "fst (generate_title (client (requests st)) config
             (get_relative_path fp (locations library))) = Inr t" "\<not> dry_run"
      "editTitle library (world st) item t = (r2, w)"
proof (cases "get_item_filepaths item")
  case Nil
  then show ?thesis by (rule no_file)
next
  case (Cons fp rest)
  show ?thesis
  proof (cases "is_title_locked item")
    case True
    with Cons show ?thesis by (rule locked)
  next
    case False
    show ?thesis
    proof (cases "fst (generate_title (client (requests st)) config
             (get_relative_path fp (locations library)))")
      case (Inl e)
      with Cons False show ?thesis by (rule gen_error)
    next
      case (Inr t)
      show ?thesis
      proof (cases dry_run)
        case True
        with Cons False Inr show ?thesis by (rule dry)
      next
        case nd: False
        obtain r2 w where "editTitle library (world st) item t = (r2, w)"
          by (cases "editTitle library (world st) item t")
        with Cons False Inr nd show ?thesis by (rule edit)
      qed
    qed
  qed
qed

lemma on_exception_counters:
  assumes "on_exception item e st = (r, st')"
  shows "processed st' = processed st \<and> skipped_locked st' = skipped_locked st
         \<and> skipped_no_file st' = skipped_no_file st
         \<and> errors st' = (if r = None then errors st + 1 else errors st)
         \<and> world st' = world st \<and> requests st' = requests st
         \<and> (r = None \<longrightarrow> is_Exception e
               \<and> out st' = out st @ [Print (''ERROR: '' @ title item @ '': '' @ exn_str e)])
         \<and> (r \<noteq> None \<longrightarrow> r = Some e \<and> \<not> is_Exception e \<and> out st' = out st)"
proof (cases "is_Exception e")
  case True
  with assms have "r = None"
    and "st' = st\<lparr>out := out st @ [Print (''ERROR: '' @ title item @ '': '' @ exn_str e)],
                   errors := errors st + 1\<rparr>"
    by (simp_all add: on_exception_def)
  with True show ?thesis by simp
next
  case False
  with assms have "r = Some e" and "st' = st" by (simp_all add: on_exception_def)
  with False show ?thesis by simp
qed

lemma process_item_effect:
  assumes "process_item library client config dry_run item st = (r, st')"
  shows "(r \<noteq> None \<longrightarrow> processed st' = processed st \<and> skipped_locked st' = skipped_locked st
            \<and> skipped_no_file st' = skipped_no_file st \<and> errors st' = errors st)
       \<and> (r = None \<longrightarrow>
          (processed st' = processed st + 1 \<and> skipped_locked st' = skipped_locked st
            \<and> skipped_no_file st' = skipped_no_file st \<and> errors st' = errors st)
        \<or> (processed st' = processed st \<and> skipped_locked st' = skipped_locked st + 1
            \<and> skipped_no_file st' = skipped_no_file st \<and> errors st' = errors st)
        \<or> (processed st' = processed st \<and> skipped_locked st' = skipped_locked st
            \<and> skipped_no_file st' = skipped_no_file st + 1 \<and> errors st' = errors st)
        \<or> (processed st' = processed st \<and> skipped_locked st' = skipped_locked st
            \<and> skipped_no_file st' = skipped_no_file st \<and> errors st' = errors st + 1))"
proof (cases rule: process_item_cases[where item=item and client=client and st=st
        and config=config and library=library and dry_run=dry_run])
  case no_file
  from assms have "r = None" and "st' = st\<lparr>skipped_no_file := skipped_no_file st + 1\<rparr>"
    unfolding process_item_no_file[where st=st, OF no_file] by simp_all
  then show ?thesis by simp
next
  case (locked fp rest)
  from assms have "r = None"
    and "st' = st\<lparr>skipped_locked := skipped_locked st + 1,
                   out := out st @ [Print (''SKIP (locked): '' @ title item)]\<rparr>"
    unfolding process_item_locked[where st=st, OF locked] by simp_all
  then show ?thesis by simp
next
  case (gen_error fp rest e)
  let ?st1 = "st\<lparr>out := out st @ [ChatRequest (completion_request config
                                  (get_relative_path fp (locations library)))],
             requests := requests st + 1\<rparr>"
  from assms have "on_exception item e ?st1 = (r, st')"
    unfolding process_item_gen_error[where client=client and st=st, OF gen_error] .
  from on_exception_counters[OF this] show ?thesis by (cases r) simp_all
next
  case (dry fp rest t)
  from assms have "r = None" and "processed st' = processed st + 1"
    and "skipped_locked st' = skipped_locked st" and "skipped_no_file st' = skipped_no_file st"
    and "errors st' = errors st"
    unfolding process_item_dry_run[where client=client and st=st, OF dry] by auto
  then show ?thesis by simp
next
  case (edit fp rest t r2 w)
  let ?st3 = "st\<lparr>out := out st @
                    [ChatRequest (completion_request config (get_relative_path fp (locations library))),
                     Print (''UPDATE: '' @ quoted (title item) @ '' -> '' @ quoted t),
                     Print (''  Path: '' @ get_relative_path fp (locations library)),
                     EditTitle item t],
                  requests := requests st + 1,
                  world := w\<rparr>"
  show ?thesis
  proof (cases r2)
    case None
    from assms have "r = None" and "st' = ?st3\<lparr>processed := processed st + 1\<rparr>"
      unfolding process_item_edit[where client=client and st=st, OF edit] None
      by (simp_all add: Let_def)
    then show ?thesis by simp
  next
    case (Some e)
    from assms have "on_exception item e ?st3 = (r, st')"
      unfolding process_item_edit[where client=client and st=st, OF edit] Some
      by (simp add: Let_def)
    from on_exception_counters[OF this] show ?thesis by (cases r) simp_all
  qed
qed



lemma process_items_counters:
  assumes "process_items library client config dry_run items st = (r, st')"
  shows "processed st \<le> processed st' \<and> skipped_locked st \<le> skipped_locked st'
       \<and> skipped_no_file st \<le> skipped_no_file st' \<and> errors st \<le> errors st'
       \<and> processed st' + skipped_locked st' + skipped_no_file st' + errors st'
           \<le> processed st + skipped_locked st + skipped_no_file st + errors st + int (length items)
       \<and> (r = None \<longrightarrow> processed st' + skipped_locked st' + skipped_no_file st' + errors st'
           = processed st + skipped_locked st + skipped_no_file st + errors st + int (length items))"
  using assms
proof (induction items arbitrary: st)
  case Nil
  then show ?case by simp
next
  case (Cons x xs)
  obtain r1 s where step: "process_item library client config dry_run x st = (r1, s)"
    by (cases "process_item library client config dry_run x st")
  note eff = process_item_effect[OF step]
  show ?case
  proof (cases r1)
    case None
    with step Cons.prems have rest: "process_items library client config dry_run xs s = (r, st')"
      by simp
    from eff None have one:
      "processed st \<le> processed s \<and> skipped_locked st \<le> skipped_locked s
       \<and> skipped_no_file st \<le> skipped_no_file s \<and> errors st \<le> errors s
       \<and> processed s + skipped_locked s + skipped_no_file s + errors s
           = processed st + skipped_locked st + skipped_no_file st + errors st + 1"
      by auto
    from Cons.IH[OF rest] one show ?thesis by simp
  next
    case (Some e)
    with step Cons.prems have "r = Some e" and "st' = s" by simp_all
    with eff Some show ?thesis by simp
  qed
qed

lemma start_run_counters:
  "processed (start_run library items w) = 0 \<and> skipped_locked (start_run library items w) = 0
   \<and> skipped_no_file (start_run library items w) = 0 \<and> errors (start_run library items w) = 0"
  by (simp add: start_run_def)

lemma process_library_items_unfold:
  "process_library_items library client config dry_run w = (r, st) \<Longrightarrow>
   \<exists>s. process_items library client config dry_run (all_items library w)
          (start_run library (all_items library w) w) = (r, s)
      \<and> processed st = processed s \<and> skipped_locked st = skipped_locked s
      \<and> skipped_no_file st = skipped_no_file s \<and> errors st = errors s
      \<and> world st = world s \<and> requests st = requests s
      \<and> out st = out s @ (if r = None then summary dry_run s else [])"
  by (auto simp: process_library_items_def Let_def split: prod.splits option.splits)

lemma any_locked_title_mem:
  "f \<in> set fs \<Longrightarrow> name f = ''title'' \<Longrightarrow> locked f \<Longrightarrow> any_locked_title fs"
  by (induction fs) auto

lemma process_item_dry_keeps:
  assumes "process_item library client config True item st = (r, st')"
  shows "world st' = world st
       \<and> (\<exists>evs. out st' = out st @ evs \<and> (\<forall>i t. EditTitle i t \<notin> set evs))
       \<and> process_item (library\<lparr>editTitle := f\<rparr>) client config True item st = (r, st')"
proof (cases rule: process_item_cases[where item=item and client=client and st=st
        and config=config and library=library and dry_run=True])
  case no_file
  from assms have "r = None" and "st' = st\<lparr>skipped_no_file := skipped_no_file st + 1\<rparr>"
    unfolding process_item_no_file[OF no_file] by simp_all
  then show ?thesis by (simp add: process_item_no_file[OF no_file])
next
  case (locked fp rest)
  from assms have "r = None"
    and "st' = st\<lparr>skipped_locked := skipped_locked st + 1,
                      out := out st @ [Print (''SKIP (locked): '' @ title item)]\<rparr>"
    unfolding process_item_locked[OF locked] by simp_all
  then show ?thesis by (simp add: process_item_locked[OF locked])
next
  case (gen_error fp rest e)
  let ?st1 = "st\<lparr>out := out st @ [ChatRequest (completion_request config
                                  (get_relative_path fp (locations library)))],
             requests := requests st + 1\<rparr>"
  have g: "fst (generate_title (client (requests st)) config
             (get_relative_path fp (locations (library\<lparr>editTitle := f\<rparr>)))) = Inl e"
    using gen_error(3) by simp
  from assms have oe: "on_exception item e ?st1 = (r, st')"
    unfolding process_item_gen_error[where client=client and st=st, OF gen_error] .
  have same: "process_item (library\<lparr>editTitle := f\<rparr>) client config True item st = (r, st')"
    unfolding process_item_gen_error[where client=client and st=st, OF gen_error(1,2) g]
    using oe by simp
  from on_exception_counters[OF oe] same show ?thesis by (cases r) simp_all
next
  case (dry fp rest t)
  have g: "fst (generate_title (client (requests st)) config
             (get_relative_path fp (locations (library\<lparr>editTitle := f\<rparr>)))) = Inr t"
    using dry(3) by simp
  from assms have "r = None" and st': "st' = st\<lparr>out := out st @
                    [ChatRequest (completion_request config (get_relative_path fp (locations library))),
                     Print (''DRY RUN: '' @ quoted (title item) @ '' -> '' @ quoted t),
                     Print (''  Path: '' @ get_relative_path fp (locations library))],
                  requests := requests st + 1,
                  processed := processed st + 1\<rparr>"
    unfolding process_item_dry_run[where client=client and st=st, OF dry] by simp_all
  moreover have "process_item (library\<lparr>editTitle := f\<rparr>) client config True item st = (r, st')"
    unfolding process_item_dry_run[where client=client and st=st, OF dry(1,2) g dry(4)]
    using \<open>r = None\<close> st' by simp
  ultimately show ?thesis by simp
next
  case (edit fp rest t r2 w)
  then show ?thesis by simp
qed

lemma process_items_dry_keeps:
  assumes "process_items library client config True items st = (r, st')"
  shows "world st' = world st
       \<and> (\<exists>evs. out st' = out st @ evs \<and> (\<forall>i t. EditTitle i t \<notin> set evs))
       \<and> process_items (library\<lparr>editTitle := f\<rparr>) client config True items st = (r, st')"
  using assms
proof (induction items arbitrary: st)
  case Nil
  then show ?case by simp
next
  case (Cons x xs)
  obtain r1 s where step: "process_item library client config True x st = (r1, s)"
    by (cases "process_item library client config True x st")
  note k = process_item_dry_keeps[OF step, of f]
  show ?case
  proof (cases r1)
    case None
    with step Cons.prems have rest: "process_items library client config True xs s = (r, st')"
      by simp
    from Cons.IH[OF rest] k None show ?thesis by auto
  next
    case (Some e)
    with step Cons.prems have "r = Some e" and "st' = s" by simp_all
    with k Some show ?thesis by simp
  qed
qed

lemma process_library_items_eq:
  "process_library_items library client config dry_run w
     = (case process_items library client config dry_run (all_items library w)
               (start_run library (all_items library w) w) of
          (Some e, s) \<Rightarrow> (Some e, s)
        | (None, s) \<Rightarrow> (None, s\<lparr>out := out s @ summary dry_run s\<rparr>))"
  by (simp add: process_library_items_def Let_def)

lemma summary_no_edit: "EditTitle i t \<notin> set (summary dry_run s)"
  by (simp add: summary_def)

lemma start_run_no_edit: "EditTitle i t \<notin> set (out (start_run library items w))"
  by (simp add: start_run_def)

lemma start_run_world: "world (start_run library items w) = w"
  by (simp add: start_run_def)

lemma start_run_editTitle:
  "start_run (library\<lparr>editTitle := f\<rparr>) items w = start_run library items w"
  by (simp add: start_run_def)



text \<open>
  C9. A run starts with the four counters at zero. An item whose processing does not leave
  the loop adds one to exactly one of them and leaves the other three as they were. The
  counters are never negative, after any items and at the end; and when the batch returns,
  their sum is the number of items of the library.
\<close>

theorem run_counters:
  "processed (start_run library items w) = 0 \<and> skipped_locked (start_run library items w) = 0
   \<and> skipped_no_file (start_run library items w) = 0 \<and> errors (start_run library items w) = 0
   \<and> (\<forall>item st st'. process_item library client config dry_run item st = (None, st') \<longrightarrow>
          (processed st' = processed st + 1 \<and> skipped_locked st' = skipped_locked st
            \<and> skipped_no_file st' = skipped_no_file st \<and> errors st' = errors st)
        \<or> (processed st' = processed st \<and> skipped_locked st' = skipped_locked st + 1
            \<and> skipped_no_file st' = skipped_no_file st \<and> errors st' = errors st)
        \<or> (processed st' = processed st \<and> skipped_locked st' = skipped_locked st
            \<and> skipped_no_file st' = skipped_no_file st + 1 \<and> errors st' = errors st)
        \<or> (processed st' = processed st \<and> skipped_locked st' = skipped_locked st
            \<and> skipped_no_file st' = skipped_no_file st \<and> errors st' = errors st + 1))
   \<and> (\<forall>seen r st. process_items library client config dry_run seen (start_run library items w) = (r, st)
          \<longrightarrow> 0 \<le> processed st \<and> 0 \<le> skipped_locked st \<and> 0 \<le> skipped_no_file st \<and> 0 \<le> errors st)
   \<and> (\<forall>r st. process_library_items library client config dry_run w = (r, st)
          \<longrightarrow> 0 \<le> processed st \<and> 0 \<le> skipped_locked st \<and> 0 \<le> skipped_no_file st \<and> 0 \<le> errors st
            \<and> (r = None \<longrightarrow> processed st + skipped_locked st + skipped_no_file st + errors st
                  = int (length (all_items library w))))"
proof (intro conjI allI impI)
  fix item st st'
  assume "process_item library client config dry_run item st = (None, st')"
  from process_item_effect[OF this]
  show "(processed st' = processed st + 1 \<and> skipped_locked st' = skipped_locked st
            \<and> skipped_no_file st' = skipped_no_file st \<and> errors st' = errors st)
        \<or> (processed st' = processed st \<and> skipped_locked st' = skipped_locked st + 1
            \<and> skipped_no_file st' = skipped_no_file st \<and> errors st' = errors st)
        \<or> (processed st' = processed st \<and> skipped_locked st' = skipped_locked st
            \<and> skipped_no_file st' = skipped_no_file st + 1 \<and> errors st' = errors st)
        \<or> (processed st' = processed st \<and> skipped_locked st' = skipped_locked st
            \<and> skipped_no_file st' = skipped_no_file st \<and> errors st' = errors st + 1)"
    by simp
next
  fix seen r st
  assume a: "process_items library client config dry_run seen (start_run library items w) = (r, st)"
  from process_items_counters[OF a] start_run_counters[of library items w]
  show "0 \<le> processed st" "0 \<le> skipped_locked st" "0 \<le> skipped_no_file st" "0 \<le> errors st"
    by simp_all
next
  fix r st
  assume a: "process_library_items library client config dry_run w = (r, st)"
  from process_library_items_unfold[OF a] obtain s where
    s: "process_items library client config dry_run (all_items library w)
          (start_run library (all_items library w) w) = (r, s)"
    and eq: "processed st = processed s" "skipped_locked st = skipped_locked s"
      "skipped_no_file st = skipped_no_file s" "errors st = errors s"
    by blast
  note c = process_items_counters[OF s] start_run_counters[of library "all_items library w" w]
  from c eq show "0 \<le> processed st" "0 \<le> skipped_locked st" "0 \<le> skipped_no_file st"
    "0 \<le> errors st"
    by simp_all
  assume "r = None"
  with c eq show "processed st + skipped_locked st + skipped_no_file st + errors st
                  = int (length (all_items library w))"
    by simp
qed (simp_all add: start_run_def)

theorem run_counters_witness:
  "fst (process_library_items example_library example_client example_config True []) = None
   \<and> processed (snd (process_library_items example_library example_client example_config True []))
     + skipped_locked (snd (process_library_items example_library example_client example_config True []))
     + skipped_no_file (snd (process_library_items example_library example_client example_config True []))
     + errors (snd (process_library_items example_library example_client example_config True []))
     = 5"
proof -
  let ?run = "process_library_items example_library example_client example_config True []"
  have r: "fst ?run = None" by code_simp
  have h: "?run = (fst ?run, snd ?run)" by simp
  have n: "int (length (all_items example_library [])) = 5"
    by (simp add: example_library_def)
  from run_counters[of example_library "[]" "[]" example_client example_config True] h r
  have "processed (snd ?run) + skipped_locked (snd ?run) + skipped_no_file (snd ?run)
          + errors (snd ?run) = int (length (all_items example_library []))"
    by blast
  with r n show ?thesis by simp
qed

text \<open>
  C3, as the code has it. Let the item have a field named \<open>title\<close> that is locked. If the item
  has a usable file part, it adds one to \<open>skipped_locked\<close>, prints the skip notice, and
  nothing else changes. If it has none, the earlier test counts it in \<open>skipped_no_file\<close>
  instead. In both cases no request goes to the language-model service: the request count
  stays, no request event is added, and the outcome does not depend on the service.
\<close>

theorem locked_item_is_skipped:
  assumes "item_fields item = Some fs" and "f \<in> set fs" and "name f = ''title''" and "locked f"
  shows "is_title_locked item
     \<and> (get_item_filepaths item \<noteq> [] \<longrightarrow>
          process_item library client config dry_run item st
            = (None, st\<lparr>skipped_locked := skipped_locked st + 1,
                          out := out st @ [Print (''SKIP (locked): '' @ title item)]\<rparr>))
     \<and> (get_item_filepaths item = [] \<longrightarrow>
          process_item library client config dry_run item st
            = (None, st\<lparr>skipped_no_file := skipped_no_file st + 1\<rparr>))
     \<and> requests (snd (process_item library client config dry_run item st)) = requests st
     \<and> (\<forall>request. ChatRequest request \<notin> set (drop (length (out st))
            (out (snd (process_item library client config dry_run item st)))))
     \<and> process_item library other_client config dry_run item st
          = process_item library client config dry_run item st"
proof -
  from assms have lk: "is_title_locked item"
    by (simp add: is_title_locked_def any_locked_title_mem)
  show ?thesis
  proof (cases "get_item_filepaths item")
    case Nil
    from lk show ?thesis by (simp add: Nil process_item_no_file[OF Nil])
  next
    case (Cons fp rest)
    from lk show ?thesis by (simp add: Cons process_item_locked[OF Cons lk])
  qed
qed

theorem locked_item_is_skipped_witness:
  "item_fields item_locked = Some [\<lparr>name = ''summary'', locked = False\<rparr>, \<lparr>name = ''title'', locked = True\<rparr>]
   \<and> get_item_filepaths item_locked \<noteq> []
   \<and> skipped_locked (snd (process_item example_library example_client example_config True item_locked
        (start_run example_library [item_locked] []))) = 1
   \<and> requests (snd (process_item example_library example_client example_config True item_locked
        (start_run example_library [item_locked] []))) = 0"
proof -
  let ?fs = "[\<lparr>name = ''summary'', locked = False\<rparr>, \<lparr>name = ''title'', locked = True\<rparr>]"
  let ?f = "\<lparr>name = ''title'', locked = True\<rparr>"
  let ?st = "start_run example_library [item_locked] [] :: (item \<times> string) list run"
  have h1: "item_fields item_locked = Some ?fs" by (simp add: item_locked_def)
  have h2: "?f \<in> set ?fs" by simp
  have h3: "name ?f = ''title''" and h4: "locked ?f" by simp_all
  have h5: "get_item_filepaths item_locked \<noteq> []"
    by (simp add: item_locked_def get_item_filepaths_def)
  note t = locked_item_is_skipped[OF h1 h2 h3 h4, of example_library example_client example_config True ?st]
  from t h5 have "process_item example_library example_client example_config True item_locked ?st
            = (None, ?st\<lparr>skipped_locked := skipped_locked ?st + 1,
                          out := out ?st @ [Print (''SKIP (locked): '' @ title item_locked)]\<rparr>)"
    by blast
  then have "skipped_locked (snd (process_item example_library example_client example_config True
                item_locked ?st)) = 1"
    by (simp add: start_run_def)
  moreover from t have "requests (snd (process_item example_library example_client example_config True
                item_locked ?st)) = requests ?st"
    by blast
  ultimately show ?thesis using h1 h5 by (simp add: start_run_def)
qed

text \<open>
  C3 as stated fails: an item with a locked title and no file part is counted in
  \<open>skipped_no_file\<close>, and \<open>skipped_locked\<close> stays at zero.
\<close>

theorem locked_without_file_counterexample:
  "is_title_locked item_locked_no_file
   \<and> skipped_locked (snd (process_item example_library example_client example_config True
        item_locked_no_file (start_run example_library [item_locked_no_file] []))) = 0
   \<and> skipped_no_file (snd (process_item example_library example_client example_config True
        item_locked_no_file (start_run example_library [item_locked_no_file] []))) = 1"
  by (simp add: is_title_locked_def item_locked_no_file_def process_item_def
      get_item_filepaths_def start_run_def)





text \<open>
  C7. A dry run returns with the catalog service in the state it started from; no
  \<open>editTitle\<close> is among its events, and the run is the same whatever \<open>editTitle\<close> would
  do. So a second dry run, started from the state the first one left and with the same
  answers of the language-model service, has the same outcome: the same counters and the
  same printed lines, the proposed \<open>old -> new\<close> pairs among them.
\<close>

theorem dry_run_never_writes:
  assumes "process_library_items library client config True w = (r, st)"
  shows "world st = w
       \<and> (\<forall>i t. EditTitle i t \<notin> set (out st))
       \<and> process_library_items (library\<lparr>editTitle := f\<rparr>) client config True w = (r, st)
       \<and> process_library_items library client config True (world st) = (r, st)"
proof -
  let ?items = "all_items library w"
  let ?st0 = "start_run library ?items w"
  obtain r0 s where s: "process_items library client config True ?items ?st0 = (r0, s)"
    by (cases "process_items library client config True ?items ?st0")
  from process_items_dry_keeps[OF s, of f] obtain evs where
    w: "world s = world ?st0" and o: "out s = out ?st0 @ evs"
    and ne: "\<forall>i t. EditTitle i t \<notin> set evs"
    and same: "process_items (library\<lparr>editTitle := f\<rparr>) client config True ?items ?st0 = (r0, s)"
    by blast
  have res: "(r, st) = (case r0 of Some e \<Rightarrow> (Some e, s)
                       | None \<Rightarrow> (None, s\<lparr>out := out s @ summary True s\<rparr>))"
    using assms unfolding process_library_items_eq s by (simp split: option.splits)
  have res': "process_library_items (library\<lparr>editTitle := f\<rparr>) client config True w
      = (case r0 of Some e \<Rightarrow> (Some e, s) | None \<Rightarrow> (None, s\<lparr>out := out s @ summary True s\<rparr>))"
    unfolding process_library_items_eq using same
    by (simp add: start_run_editTitle split: option.splits)
  have 1: "world st = w"
    using res w by (cases r0) (simp_all add: start_run_world)
  have 2: "\<forall>i t. EditTitle i t \<notin> set (out st)"
    using res o ne by (cases r0) (simp_all add: start_run_no_edit summary_no_edit)
  from res res' have 3: "process_library_items (library\<lparr>editTitle := f\<rparr>) client config True w = (r, st)"
    by simp
  from 1 2 3 assms show ?thesis by simp
qed

theorem dry_run_never_writes_witness:
  "world (snd (process_library_items example_library example_client example_config True [])) = []
   \<and> process_library_items example_library example_client example_config True
        (world (snd (process_library_items example_library example_client example_config True [])))
      = process_library_items example_library example_client example_config True []
   \<and> processed (snd (process_library_items example_library example_client example_config True [])) = 2"
proof -
  let ?run = "process_library_items example_library example_client example_config True []"
  have h: "?run = (fst ?run, snd ?run)" by simp
  have p: "processed (snd ?run) = 2" by code_simp
  from dry_run_never_writes[OF h] p show ?thesis by simp
qed

subsection \<open>CredentialStore and AuthenticationFlow\<close>

lemma load_cached_token_absent:
  "load_cached_token NoFile = Inr JNull"
  "load_cached_token (OpenFails m) = Inr JNull"
  "load_cached_token (Opened (Inl (JSONDecodeError m))) = Inr JNull"
  "load_cached_token (Opened (Inl (OSError m))) = Inr JNull"
  "map_of kvs ''auth_token'' = None \<Longrightarrow> load_cached_token (Opened (Inr (JObj kvs))) = Inr JNull"
  by (simp_all add: load_cached_token_def dict_get_def)

text \<open>
  C4 fails on the code. A credential file that holds well-formed JSON which is not an
  object, here the text \<open>[]\<close>, passes \<open>json.load\<close>; \<open>data.get\<close> then raises
  \<open>AttributeError\<close>, which the handler for \<open>JSONDecodeError\<close> and \<open>OSError\<close> does not
  catch: \<open>load_cached_token\<close> raises, and so does \<open>authenticate_myplex\<close> before anything
  else happens. An object whose \<open>auth_token\<close> is not a string, here the number 5, is
  returned as it is.
\<close>

theorem load_cached_token_raises_on_array:
  "load_cached_token (creds array_env)
     = Inl (AttributeError (quoted ''list'' @ '' object has no attribute '' @ quoted ''get''))
   \<and> authenticate_myplex array_env None None
     = (Inl (AttributeError (quoted ''list'' @ '' object has no attribute '' @ quoted ''get'')), [])
   \<and> load_cached_token (Opened (Inr (JObj [(''auth_token'', JInt 5)]))) = Inr (JInt 5)"
  by (simp add: authenticate_myplex_def array_env_def load_cached_token_def dict_get_def)

lemma login_with_password_saves:
  assumes "login_with_password env username password = (Inr acct, tr)"
  shows "\<exists>pre. tr = pre @ save_cached_token env (authToken acct)
                     @ [Print ''Credentials cached for future use.'']"
  using assms
  by (auto simp: login_with_password_def Let_def split: prod.splits sum.splits)

lemma authenticate_myplex_cases:
  assumes "authenticate_myplex env username password = (r, tr)"
  obtains
    (load_fails) e where "load_cached_token (creds env) = Inl e" "r = Inl e" "tr = []"
  | (cached) tok a where "load_cached_token (creds env) = Inr tok" "truthy tok"
      "token_login env tok = Inr a" "r = Inr a"
      "tr = [Print ''Using cached credentials...'', TokenLogin tok]"
  | (token_fails) tok e where "load_cached_token (creds env) = Inr tok" "truthy tok"
      "token_login env tok = Inl e" "\<forall>m. e \<noteq> Unauthorized m" "r = Inl e"
      "tr = [Print ''Using cached credentials...'', TokenLogin tok]"
  | (expired) tok m tr' where "load_cached_token (creds env) = Inr tok" "truthy tok"
      "token_login env tok = Inl (Unauthorized m)"
      "login_with_password env username password = (r, tr')"
      "tr = [Print ''Using cached credentials...'', TokenLogin tok,
             Print ''Cached credentials expired, re-authenticating...'', Unlink] @ tr'"
  | (no_token) tok where "load_cached_token (creds env) = Inr tok" "\<not> truthy tok"
      "login_with_password env username password = (r, tr)"
proof (cases "load_cached_token (creds env)")
  case (Inl e)
  with assms have "r = Inl e" "tr = []" by (simp_all add: authenticate_myplex_def)
  with Inl show ?thesis by (rule load_fails)
next
  case (Inr tok)
  show ?thesis
  proof (cases "truthy tok")
    case False
    with Inr assms have "login_with_password env username password = (r, tr)"
      by (simp add: authenticate_myplex_def)
    with Inr False show ?thesis by (rule no_token)
  next
    case True
    show ?thesis
    proof (cases "token_login env tok")
      case a: (Inr a)
      with Inr True assms have "r = Inr a" "tr = [Print ''Using cached credentials...'', TokenLogin tok]"
        by (simp_all add: authenticate_myplex_def)
      with Inr True a show ?thesis by (rule cached)
    next
      case e: (Inl e)
      show ?thesis
      proof (cases "\<exists>m. e = Unauthorized m")
        case False
        with Inr True e assms have "r = Inl e"
          "tr = [Print ''Using cached credentials...'', TokenLogin tok]"
          by (cases e; simp add: authenticate_myplex_def)+
        with Inr True e False show ?thesis using token_fails by blast
      next
        case True2: True
        then obtain m where m: "e = Unauthorized m" by blast
        obtain r' tr' where l: "login_with_password env username password = (r', tr')"
          by (cases "login_with_password env username password")
        with Inr True e m assms have "r = r'"
          "tr = [Print ''Using cached credentials...'', TokenLogin tok,
             Print ''Cached credentials expired, re-authenticating...'', Unlink] @ tr'"
          by (simp_all add: authenticate_myplex_def clear_cached_token_def)
        with Inr True e m l show ?thesis using expired by blast
      qed
    qed
  qed
qed

lemma login_with_password_empty_username:
  "login_with_password env (Some []) password = login_with_password env None password"
  by (simp add: login_with_password_def)

lemma login_with_password_empty_password:
  "login_with_password env username (Some []) = login_with_password env username None"
  by (simp add: login_with_password_def)

lemma try_password_events:
  "ev \<in> set (snd (try_password env u p)) \<Longrightarrow>
   (\<exists>c. ev = PasswordLogin u p c) \<or> ev = Input ''2FA verification code: ''"
  by (auto simp: try_password_def split: sum.splits exn.splits if_splits)

lemma save_cached_token_events:
  "ev \<in> set (save_cached_token env token) \<Longrightarrow>
   (\<exists>m. ev = Print m) \<or> ev = WriteCreds token \<or> ev = Chmod600"
  by (auto simp: save_cached_token_def split: option.splits)

lemma ask_username_cases:
  assumes "ask_username env un = (ru, tr1)"
  shows "(not_str un \<and> tr1 = [Input ''Plex.tv username: '']
            \<and> ru = map_sum id strip (input_username env))
       \<or> (\<not> not_str un \<and> tr1 = [] \<and> (\<exists>u. un = Some u \<and> ru = Inr u))"
  using assms by (cases un) (auto simp: ask_username_def split: if_splits)

lemma ask_password_cases:
  assumes "ask_password env pw = (rp, tr2)"
  shows "(not_str pw \<and> tr2 = [Getpass ''Plex.tv password: ''] \<and> rp = getpass_password env)
       \<or> (\<not> not_str pw \<and> tr2 = [] \<and> (\<exists>p. pw = Some p \<and> rp = Inr p))"
  using assms by (cases pw) (auto simp: ask_password_def split: if_splits)

lemma login_with_password_cases:
  assumes "login_with_password env username password = (r, tr)"
  obtains
    (no_username) e where
      "ask_username env (if not_str username then config_username env else username) = (Inl e, tr)"
  | (no_password) u tr1 e tr2 where
      "ask_username env (if not_str username then config_username env else username) = (Inr u, tr1)"
      "ask_password env (if not_str password then config_password env else password) = (Inl e, tr2)"
      "tr = tr1 @ tr2"
  | (tried) u tr1 p tr2 rest where
      "ask_username env (if not_str username then config_username env else username) = (Inr u, tr1)"
      "ask_password env (if not_str password then config_password env else password) = (Inr p, tr2)"
      "tr = tr1 @ tr2 @ [Print (''Authenticating with Plex.tv as '' @ u @ ''...'')]
              @ snd (try_password env u p) @ rest"
      "\<forall>ev \<in> set rest. (\<exists>m. ev = Print m) \<or> (\<exists>t. ev = WriteCreds t) \<or> ev = Chmod600"
proof -
  let ?un = "if not_str username then config_username env else username"
  let ?pw = "if not_str password then config_password env else password"
  obtain ru tr1 where au: "ask_username env ?un = (ru, tr1)" by (cases "ask_username env ?un")
  show ?thesis
  proof (cases ru)
    case (Inl e)
    with au assms have "tr = tr1" by (simp add: login_with_password_def Let_def)
    with au Inl show ?thesis using no_username by simp
  next
    case u: (Inr u)
    obtain rp tr2 where ap: "ask_password env ?pw = (rp, tr2)" by (cases "ask_password env ?pw")
    show ?thesis
    proof (cases rp)
      case (Inl e)
      with au u ap assms have "tr = tr1 @ tr2" by (simp add: login_with_password_def Let_def)
      with au u ap Inl show ?thesis using no_password by simp
    next
      case p: (Inr p)
      obtain ra tr4 where tp: "try_password env u p = (ra, tr4)" by (cases "try_password env u p")
      show ?thesis
      proof (cases ra)
        case (Inl e)
        with au u ap p tp assms have
          "tr = tr1 @ tr2 @ [Print (''Authenticating with Plex.tv as '' @ u @ ''...'')]
              @ snd (try_password env u p) @ []"
          by (simp add: login_with_password_def Let_def)
        with au u ap p show ?thesis using tried[of u tr1 p tr2 "[]"] by simp
      next
        case (Inr account)
        let ?rest = "save_cached_token env (authToken account)
                       @ [Print ''Credentials cached for future use.'']"
        from au u ap p tp Inr assms have
          "tr = tr1 @ tr2 @ [Print (''Authenticating with Plex.tv as '' @ u @ ''...'')]
              @ snd (try_password env u p) @ ?rest"
          by (simp add: login_with_password_def Let_def)
        moreover have "\<forall>ev \<in> set ?rest. (\<exists>m. ev = Print m) \<or> (\<exists>t. ev = WriteCreds t) \<or> ev = Chmod600"
          using save_cached_token_events by fastforce
        ultimately show ?thesis using au u ap p tried[of u tr1 p tr2 ?rest] by blast
      qed
    qed
  qed
qed

lemma login_with_password_logins:
  assumes "login_with_password env username password = (r, tr)"
    and "PasswordLogin u p c \<in> set tr"
  shows "(if not_str (if not_str username then config_username env else username)
          then Input ''Plex.tv username: '' \<in> set tr
               \<and> (\<exists>line. input_username env = Inr line \<and> u = strip line)
          else (if not_str username then config_username env else username) = Some u
               \<and> Input ''Plex.tv username: '' \<notin> set tr)
       \<and> (if not_str (if not_str password then config_password env else password)
          then Getpass ''Plex.tv password: '' \<in> set tr \<and> getpass_password env = Inr p
          else (if not_str password then config_password env else password) = Some p
               \<and> Getpass ''Plex.tv password: '' \<notin> set tr)"
  using assms(1)
proof (cases rule: login_with_password_cases)
  case (no_username e)
  from ask_username_cases[OF this] assms(2) show ?thesis by auto
next
  case (no_password u0 tr1 e tr2)
  from ask_username_cases[OF no_password(1)] ask_password_cases[OF no_password(2)]
    no_password(3) assms(2)
  show ?thesis by auto
next
  case (tried u0 tr1 p0 tr2 rest)
  let ?un = "if not_str username then config_username env else username"
  let ?pw = "if not_str password then config_password env else password"
  note au = ask_username_cases[OF tried(1)] and ap = ask_password_cases[OF tried(2)]
  have tr1: "PasswordLogin u p c \<notin> set tr1" "Getpass ''Plex.tv password: '' \<notin> set tr1"
    using au by auto
  have tr2: "PasswordLogin u p c \<notin> set tr2" "Input ''Plex.tv username: '' \<notin> set tr2"
    using ap by auto
  have rest: "PasswordLogin u p c \<notin> set rest" "Input ''Plex.tv username: '' \<notin> set rest"
    "Getpass ''Plex.tv password: '' \<notin> set rest"
    using tried(4) by auto
  have tp: "Input ''Plex.tv username: '' \<notin> set (snd (try_password env u0 p0))"
    "Getpass ''Plex.tv password: '' \<notin> set (snd (try_password env u0 p0))"
    using try_password_events[of _ env u0 p0] by auto
  from assms(2) tried(3) tr1 tr2 rest have "PasswordLogin u p c \<in> set (snd (try_password env u0 p0))"
    by simp
  from try_password_events[OF this] have eq: "u = u0" "p = p0" by auto
  have inu: "Input ''Plex.tv username: '' \<in> set tr \<longleftrightarrow> Input ''Plex.tv username: '' \<in> set tr1"
    using tried(3) tr2 rest tp by simp
  have ing: "Getpass ''Plex.tv password: '' \<in> set tr \<longleftrightarrow> Getpass ''Plex.tv password: '' \<in> set tr2"
    using tried(3) tr1 rest tp by simp
  have U: "if not_str ?un
          then Input ''Plex.tv username: '' \<in> set tr
               \<and> (\<exists>line. input_username env = Inr line \<and> u = strip line)
          else ?un = Some u \<and> Input ''Plex.tv username: '' \<notin> set tr"
  proof (cases "not_str ?un")
    case True
    with au have a: "tr1 = [Input ''Plex.tv username: '']"
      and b: "Inr u0 = map_sum id strip (input_username env)" by auto
    from b obtain line where "input_username env = Inr line" "u0 = strip line"
      by (cases "input_username env") auto
    with True a inu eq show ?thesis by simp
  next
    case False
    with au have "tr1 = []" "?un = Some u0" by auto
    with False inu eq show ?thesis by simp
  qed
  have P: "if not_str ?pw
          then Getpass ''Plex.tv password: '' \<in> set tr \<and> getpass_password env = Inr p
          else ?pw = Some p \<and> Getpass ''Plex.tv password: '' \<notin> set tr"
  proof (cases "not_str ?pw")
    case True
    with ap have "tr2 = [Getpass ''Plex.tv password: '']" "getpass_password env = Inr p0" by auto
    with True ing eq show ?thesis by simp
  next
    case False
    with ap have "tr2 = []" "?pw = Some p0" by auto
    with False ing eq show ?thesis by simp
  qed
  from U P show ?thesis by blast
qed

lemma authenticate_myplex_logins:
  assumes "authenticate_myplex env username password = (r, tr)"
    and "PasswordLogin u p c \<in> set tr"
  shows "(if not_str (if not_str username then config_username env else username)
          then Input ''Plex.tv username: '' \<in> set tr
               \<and> (\<exists>line. input_username env = Inr line \<and> u = strip line)
          else (if not_str username then config_username env else username) = Some u
               \<and> Input ''Plex.tv username: '' \<notin> set tr)
       \<and> (if not_str (if not_str password then config_password env else password)
          then Getpass ''Plex.tv password: '' \<in> set tr \<and> getpass_password env = Inr p
          else (if not_str password then config_password env else password) = Some p
               \<and> Getpass ''Plex.tv password: '' \<notin> set tr)"
  using assms(1)
proof (cases rule: authenticate_myplex_cases)
  case (load_fails e)
  with assms(2) show ?thesis by simp
next
  case (cached tok a)
  with assms(2) show ?thesis by simp
next
  case (token_fails tok e)
  with assms(2) show ?thesis by simp
next
  case (expired tok m tr')
  from expired(5) assms(2) have "PasswordLogin u p c \<in> set tr'" by simp
  from login_with_password_logins[OF expired(4) this] expired(5) show ?thesis by simp
next
  case (no_token tok)
  from login_with_password_logins[OF no_token(3) assms(2)] show ?thesis .
qed

text \<open>
  C1, as the code has it. Let \<open>authenticate_myplex\<close> return an account. If the credential
  file gave a token and the service accepted it, the events are the notice and that login
  and nothing else: \<open>save_cached_token\<close> is not called. In every other case the account
  comes from a login by password, and the last events before the return are those of
  \<open>save_cached_token\<close> on the account's token, followed by the notice that the credentials
  are cached.
\<close>

theorem authenticate_myplex_saves_token:
  assumes "authenticate_myplex env username password = (Inr acct, tr)"
  shows "(\<forall>tok a. load_cached_token (creds env) = Inr tok \<and> truthy tok \<and> token_login env tok = Inr a
            \<longrightarrow> acct = a \<and> tr = [Print ''Using cached credentials...'', TokenLogin tok])
       \<and> ((\<forall>tok a. load_cached_token (creds env) = Inr tok \<and> truthy tok \<longrightarrow> token_login env tok \<noteq> Inr a)
            \<longrightarrow> (\<exists>pre. tr = pre @ save_cached_token env (authToken acct)
                              @ [Print ''Credentials cached for future use.'']))"
  using assms
proof (cases rule: authenticate_myplex_cases)
  case (load_fails e)
  then show ?thesis by simp
next
  case (cached tok a)
  then show ?thesis by auto
next
  case (token_fails tok e)
  then show ?thesis by simp
next
  case (expired tok m tr')
  from login_with_password_saves[OF expired(4)] obtain pre where
    "tr' = pre @ save_cached_token env (authToken acct) @ [Print ''Credentials cached for future use.'']"
    by blast
  with expired(5) have "tr = ([Print ''Using cached credentials...'', TokenLogin tok,
             Print ''Cached credentials expired, re-authenticating...'', Unlink] @ pre)
           @ save_cached_token env (authToken acct) @ [Print ''Credentials cached for future use.'']"
    by simp
  then have "\<exists>pre. tr = pre @ save_cached_token env (authToken acct)
                              @ [Print ''Credentials cached for future use.'']"
    by blast
  with expired(1,2,3) show ?thesis by simp
next
  case (no_token tok)
  from login_with_password_saves[OF no_token(3)] no_token(1,2) show ?thesis by simp
qed

theorem authenticate_myplex_saves_token_witness:
  "authenticate_myplex example_env None None
     = (Inr (Account ''fresh''),
        [Input ''Plex.tv username: '', Getpass ''Plex.tv password: '',
         Print ''Authenticating with Plex.tv as bob...'', PasswordLogin ''bob'' ''secret'' None,
         Input ''2FA verification code: '', PasswordLogin ''bob'' ''secret'' (Some ''123456''),
         WriteCreds ''fresh'', Chmod600, Print ''Credentials cached for future use.''])
   \<and> load_cached_token (creds example_env) = Inr JNull
   \<and> (\<exists>pre. snd (authenticate_myplex example_env None None)
          = pre @ save_cached_token example_env ''fresh'' @ [Print ''Credentials cached for future use.''])
   \<and> authenticate_myplex cached_env None None
     = (Inr (Account ''abc''), [Print ''Using cached credentials...'', TokenLogin (JStr ''abc'')])"
proof -
  let ?tr = "[Input ''Plex.tv username: '', Getpass ''Plex.tv password: '',
         Print ''Authenticating with Plex.tv as bob...'', PasswordLogin ''bob'' ''secret'' None,
         Input ''2FA verification code: '', PasswordLogin ''bob'' ''secret'' (Some ''123456''),
         WriteCreds ''fresh'', Chmod600, Print ''Credentials cached for future use.'']"
  have run: "authenticate_myplex example_env None None = (Inr (Account ''fresh''), ?tr)"
    by code_simp
  have l: "load_cached_token (creds example_env) = Inr JNull"
    by (simp add: example_env_def load_cached_token_def)
  then have nc: "\<forall>tok a. load_cached_token (creds example_env) = Inr tok \<and> truthy tok
            \<longrightarrow> token_login example_env tok \<noteq> Inr a"
    by simp
  from authenticate_myplex_saves_token[OF run] nc
  have s: "\<exists>pre. ?tr = pre @ save_cached_token example_env (authToken (Account ''fresh''))
                              @ [Print ''Credentials cached for future use.'']"
    by blast
  have crun: "authenticate_myplex cached_env None None
     = (Inr (Account ''abc''), snd (authenticate_myplex cached_env None None))"
    by code_simp
  have cl: "load_cached_token (creds cached_env) = Inr (JStr ''abc'') \<and> truthy (JStr ''abc'')
      \<and> token_login cached_env (JStr ''abc'') = Inr (Account ''abc'')"
    by (simp add: cached_env_def example_env_def load_cached_token_def dict_get_def)
  from authenticate_myplex_saves_token[OF crun] cl
  have "snd (authenticate_myplex cached_env None None)
          = [Print ''Using cached credentials...'', TokenLogin (JStr ''abc'')]"
    by blast
  with crun have c: "authenticate_myplex cached_env None None
     = (Inr (Account ''abc''), [Print ''Using cached credentials...'', TokenLogin (JStr ''abc'')])"
    by simp
  from run l s c show ?thesis by simp
qed

text \<open>
  C1 as stated fails: with a cached token that the service accepts, the account is returned
  and no event of \<open>save_cached_token\<close> has happened.
\<close>

theorem cached_token_not_saved_counterexample:
  "authenticate_myplex cached_env None None
     = (Inr (Account ''abc''), [Print ''Using cached credentials...'', TokenLogin (JStr ''abc'')])
   \<and> save_cached_token cached_env ''abc'' = [WriteCreds ''abc'', Chmod600]
   \<and> WriteCreds ''abc'' \<notin> set (snd (authenticate_myplex cached_env None None))"
  by code_simp

text \<open>
  C2 fails on the code. Nothing in \<open>authenticate_myplex\<close> handles an interrupted prompt.
  At end of input on the username prompt the \<open>EOFError\<close> reaches \<open>except Exception\<close>
  of \<open>main\<close>: the program prints \<open>Error: ...\<close> and exits with status 1. On an interrupt at
  the prompt for the code the \<open>KeyboardInterrupt\<close> is not an \<open>Exception\<close>: it leaves
  \<open>main\<close> and the program ends with a traceback.
\<close>

theorem cancelled_prompt_is_an_error:
  "main_authenticate eof_env None None
     = (SysExit 1, [Input ''Plex.tv username: '', Print ''Error: EOF when reading a line''])
   \<and> main_authenticate interrupt_env None None
     = (Traceback KeyboardInterrupt,
        [Input ''Plex.tv username: '', Getpass ''Plex.tv password: '',
         Print ''Authenticating with Plex.tv as bob...'', PasswordLogin ''bob'' ''secret'' None,
         Input ''2FA verification code: ''])"
  by code_simp

text \<open>
  C10. An empty string given as username is treated as no username, and likewise for the
  password: the whole flow is the same as with \<open>None\<close>. Whenever the flow then attempts a
  login by password, the username is the configured default when that is a non-empty
  string, and no prompt for it has occurred; otherwise the prompt has occurred and the
  username is the stripped line typed there. The same holds for the password, with the
  line from \<open>getpass\<close> taken as typed.
\<close>

theorem empty_credentials_fall_through:
  "authenticate_myplex env (Some []) password = authenticate_myplex env None password
   \<and> authenticate_myplex env username (Some []) = authenticate_myplex env username None
   \<and> (\<forall>r tr u p c. authenticate_myplex env (Some []) password = (r, tr)
           \<and> PasswordLogin u p c \<in> set tr \<longrightarrow>
         (if not_str (config_username env)
          then Input ''Plex.tv username: '' \<in> set tr
               \<and> (\<exists>line. input_username env = Inr line \<and> u = strip line)
          else config_username env = Some u \<and> Input ''Plex.tv username: '' \<notin> set tr))
   \<and> (\<forall>r tr u p c. authenticate_myplex env username (Some []) = (r, tr)
           \<and> PasswordLogin u p c \<in> set tr \<longrightarrow>
         (if not_str (config_password env)
          then Getpass ''Plex.tv password: '' \<in> set tr \<and> getpass_password env = Inr p
          else config_password env = Some p \<and> Getpass ''Plex.tv password: '' \<notin> set tr))"
proof (intro conjI allI impI)
  show "authenticate_myplex env (Some []) password = authenticate_myplex env None password"
    unfolding authenticate_myplex_def login_with_password_empty_username ..
  show "authenticate_myplex env username (Some []) = authenticate_myplex env username None"
    unfolding authenticate_myplex_def login_with_password_empty_password ..
next
  fix r tr u p c
  assume a: "authenticate_myplex env (Some []) password = (r, tr) \<and> PasswordLogin u p c \<in> set tr"
  from authenticate_myplex_logins[of env "Some []" password r tr u p c] a
  show "if not_str (config_username env)
          then Input ''Plex.tv username: '' \<in> set tr
               \<and> (\<exists>line. input_username env = Inr line \<and> u = strip line)
          else config_username env = Some u \<and> Input ''Plex.tv username: '' \<notin> set tr"
    by (auto split: if_splits)
next
  fix r tr u p c
  assume a: "authenticate_myplex env username (Some []) = (r, tr) \<and> PasswordLogin u p c \<in> set tr"
  from authenticate_myplex_logins[of env username "Some []" r tr u p c] a
  show "if not_str (config_password env)
          then Getpass ''Plex.tv password: '' \<in> set tr \<and> getpass_password env = Inr p
          else config_password env = Some p \<and> Getpass ''Plex.tv password: '' \<notin> set tr"
    by (auto split: if_splits)
qed

theorem empty_credentials_fall_through_witness:
  "authenticate_myplex example_env (Some '''') (Some '''')
     = authenticate_myplex example_env None (Some '''')
   \<and> PasswordLogin ''bob'' ''secret'' None \<in> set (snd (authenticate_myplex example_env (Some '''') (Some '''')))
   \<and> Input ''Plex.tv username: '' \<in> set (snd (authenticate_myplex example_env (Some '''') (Some '''')))
   \<and> (\<exists>line. input_username example_env = Inr line \<and> ''bob'' = strip line)"
proof -
  let ?run = "authenticate_myplex example_env (Some '''') (Some '''')"
  have h: "?run = (fst ?run, snd ?run)" by simp
  have m: "PasswordLogin ''bob'' ''secret'' None \<in> set (snd ?run)" by code_simp
  have n: "not_str (config_username example_env)" by (simp add: example_env_def)
  note t = empty_credentials_fall_through[of example_env "Some ''''" "Some ''''"]
  from t have 1: "?run = authenticate_myplex example_env None (Some '''')" by blast
  from t h m n have "Input ''Plex.tv username: '' \<in> set (snd ?run)
               \<and> (\<exists>line. input_username example_env = Inr line \<and> ''bob'' = strip line)"
    by (metis (no_types, lifting))
  with 1 m show ?thesis by blast
qed

end
